theory Spec2Isabelle
  imports Main "HOL-Library.Word"
begin

unbundle bit_operations_syntax

section \<open>Data model (opdis/model.h)\<close>

text \<open>
  A C pointer is an optional address: \<open>None\<close> is the null pointer. Objects of the four
  kinds the model allocates (character buffers, operands, operand-pointer arrays and
  instructions) live in one address space, see the record \<open>heap\<close> below.
\<close>

type_synonym ptr = "nat option"

text \<open>
  \<open>enum opdis_insn_decode_t\<close>: the status of an instruction is a mask of these bits.
\<close>

definition opdis_decode_invalid :: int where "opdis_decode_invalid = 0"
definition opdis_decode_basic :: int where "opdis_decode_basic = 1"
definition opdis_decode_mnem :: int where "opdis_decode_mnem = 2"
definition opdis_decode_ops :: int where "opdis_decode_ops = 4"
definition opdis_decode_mnem_flags :: int where "opdis_decode_mnem_flags = 8"
definition opdis_decode_op_flags :: int where "opdis_decode_op_flags = 16"

text \<open>
  Modelled from the spec: \<open>enum opdis_insn_cat_t\<close> and \<open>enum opdis_cflow_flag_t\<close> are
  declared in opdis/metadata.h, which is not among the sources. The source names
  \<open>opdis_insn_cat_cflow\<close> and the five control-flow flags it compares against; the
  spec names the categories control-flow, stack, I/O and bitwise. The first constructor
  of each type is the enumerator of value 0 (what \<open>calloc\<close> leaves in the field), and
  \<open>\<dots>_other k\<close> stands for every other value the int-sized field can hold (further
  enumerators, combinations of flags, values out of range).
\<close>

datatype opdis_insn_cat_t =
    opdis_insn_cat_unknown
  | opdis_insn_cat_cflow
  | opdis_insn_cat_stack
  | opdis_insn_cat_io
  | opdis_insn_cat_bit
  | opdis_insn_cat_other nat

datatype opdis_cflow_flag_t =
    opdis_cflow_flag_none
  | opdis_cflow_flag_call
  | opdis_cflow_flag_callcc
  | opdis_cflow_flag_jmp
  | opdis_cflow_flag_jmpcc
  | opdis_cflow_flag_ret
  | opdis_cflow_flag_other nat

text \<open>
  \<open>opdis_op_t\<close>. The category and flags are enums of metadata.h that no function of
  model.c inspects: they are kept as their integer values, and the value union as its
  bytes. The three trailing fields are \<open>unsigned char\<close>.
\<close>

record opdis_op_t =
  op_ascii :: ptr
  op_category :: int
  op_flags :: int
  op_value :: "8 word list"
  op_data_size :: "8 word"
  op_fixed_size :: "8 word"
  op_ascii_sz :: "8 word"

text \<open>
  \<open>opdis_insn_t\<close>. The field \<open>size\<close> of the struct is \<open>insn_size\<close> here. The union
  \<open>flags\<close> is read by model.c through its member \<open>cflow\<close> only; \<open>flags_cflow\<close> is
  the union seen through that member. \<open>opdis_off_t\<close> (opdis/types.h) counts bytes and
  operands: the counts are natural numbers.
\<close>

record opdis_insn_t =
  status :: int
  ascii :: ptr
  offset :: nat
  vma :: nat
  insn_size :: nat
  bytes :: ptr
  num_prefixes :: nat
  prefixes :: ptr
  mnemonic :: ptr
  category :: opdis_insn_cat_t
  isa :: int
  flags_cflow :: opdis_cflow_flag_t
  comment :: ptr
  num_operands :: nat
  alloc_operands :: nat
  operands :: ptr
  target :: ptr
  dest :: ptr
  src :: ptr
  fixed_size :: "8 word"
  ascii_sz :: "8 word"
  mnemonic_sz :: "8 word"

text \<open>What \<open>calloc(1, sizeof(...))\<close> returns: every field zero.\<close>

definition op_zero :: opdis_op_t where
  "op_zero = \<lparr> op_ascii = None, op_category = 0, op_flags = 0, op_value = [],
     op_data_size = 0, op_fixed_size = 0, op_ascii_sz = 0 \<rparr>"

definition insn_zero :: opdis_insn_t where
  "insn_zero = \<lparr> status = 0, ascii = None, offset = 0, vma = 0, insn_size = 0,
     bytes = None, num_prefixes = 0, prefixes = None, mnemonic = None,
     category = opdis_insn_cat_unknown, isa = 0, flags_cflow = opdis_cflow_flag_none,
     comment = None, num_operands = 0, alloc_operands = 0, operands = None,
     target = None, dest = None, src = None,
     fixed_size = 0, ascii_sz = 0, mnemonic_sz = 0 \<rparr>"

section \<open>Classification predicates\<close>

text \<open>
  \<open>opdis_insn_is_branch\<close> and \<open>opdis_insn_fallthrough\<close> read the instruction their
  argument points to; the argument is \<open>None\<close> for a null pointer.
\<close>

definition opdis_insn_is_branch :: "opdis_insn_t option \<Rightarrow> bool" where
  "opdis_insn_is_branch i =
     (case i of
        None \<Rightarrow> False
      | Some I \<Rightarrow>
          if category I = opdis_insn_cat_cflow then
            (if flags_cflow I = opdis_cflow_flag_call \<or>
                flags_cflow I = opdis_cflow_flag_callcc \<or>
                flags_cflow I = opdis_cflow_flag_jmp \<or>
                flags_cflow I = opdis_cflow_flag_jmpcc
             then True else False)
          else False)"

definition opdis_insn_fallthrough :: "opdis_insn_t option \<Rightarrow> bool" where
  "opdis_insn_fallthrough i =
     (case i of
        None \<Rightarrow> True
      | Some I \<Rightarrow>
          if category I = opdis_insn_cat_cflow then
            (if flags_cflow I = opdis_cflow_flag_ret \<or>
                flags_cflow I = opdis_cflow_flag_jmp
             then False else True)
          else True)"

text \<open>The status mask records that the category and flags of the instruction were decoded.\<close>

definition mnem_flags_decoded :: "opdis_insn_t \<Rightarrow> bool" where
  "mnem_flags_decoded I = (status I AND opdis_decode_mnem_flags \<noteq> 0)"

section \<open>The heap and the C library\<close>

text \<open>
  What can go wrong in C beyond a reported failure: reading through a null pointer,
  using an address that is not (or no longer) allocated, reading or writing outside a
  buffer or an array, and overflowing a signed loop counter. The model stops with the
  fault instead of continuing with an unspecified value.
\<close>

datatype fault = NullDeref | BadPointer | Overrun | SignedOverflow

text \<open>
  The heap: one partial map per kind of object, a counter for the next unused address
  (shared, so no two objects of any kind have the same address), and the outcomes of the
  allocation requests to come: \<open>False\<close> makes the next \<open>calloc\<close>, \<open>strdup\<close> or
  \<open>realloc\<close> return a null pointer; once the list is used up every request succeeds.
  A character buffer is the list of its bytes, its length the allocated size; a request
  for no bytes that succeeds gives a buffer of no bytes.
\<close>

record heap =
  strs :: "nat \<Rightarrow> string option"
  opers :: "nat \<Rightarrow> opdis_op_t option"
  arrays :: "nat \<Rightarrow> ptr list option"
  insts :: "nat \<Rightarrow> opdis_insn_t option"
  fresh :: nat
  alloc_plan :: "bool list"

definition heap_init :: "bool list \<Rightarrow> heap" where
  "heap_init bs = \<lparr> strs = (\<lambda>_. None), opers = (\<lambda>_. None), arrays = (\<lambda>_. None),
     insts = (\<lambda>_. None), fresh = 0, alloc_plan = bs \<rparr>"

definition NUL :: char where
  "NUL = CHR 0x00"

text \<open>A byte that was allocated and never written (\<open>realloc\<close> does not clear).\<close>

definition junk :: char where
  "junk = CHR 0xAA"

definition next_alloc :: "heap \<Rightarrow> bool \<times> heap" where
  "next_alloc h = (case alloc_plan h of [] \<Rightarrow> (True, h) | b # bs \<Rightarrow> (b, h\<lparr>alloc_plan := bs\<rparr>))"

definition new_str :: "string \<Rightarrow> heap \<Rightarrow> ptr \<times> heap" where
  "new_str buf h =
     (case next_alloc h of
        (False, h1) \<Rightarrow> (None, h1)
      | (True, h1) \<Rightarrow>
          (Some (fresh h1),
           h1\<lparr>strs := (strs h1)(fresh h1 \<mapsto> buf), fresh := Suc (fresh h1)\<rparr>))"

definition calloc_str :: "nat \<Rightarrow> heap \<Rightarrow> ptr \<times> heap" where
  "calloc_str n h = new_str (replicate n NUL) h"

definition calloc_op :: "heap \<Rightarrow> ptr \<times> heap" where
  "calloc_op h =
     (case next_alloc h of
        (False, h1) \<Rightarrow> (None, h1)
      | (True, h1) \<Rightarrow>
          (Some (fresh h1),
           h1\<lparr>opers := (opers h1)(fresh h1 \<mapsto> op_zero), fresh := Suc (fresh h1)\<rparr>))"

definition calloc_insn :: "heap \<Rightarrow> ptr \<times> heap" where
  "calloc_insn h =
     (case next_alloc h of
        (False, h1) \<Rightarrow> (None, h1)
      | (True, h1) \<Rightarrow>
          (Some (fresh h1),
           h1\<lparr>insts := (insts h1)(fresh h1 \<mapsto> insn_zero), fresh := Suc (fresh h1)\<rparr>))"

definition calloc_array :: "nat \<Rightarrow> heap \<Rightarrow> ptr \<times> heap" where
  "calloc_array n h =
     (case next_alloc h of
        (False, h1) \<Rightarrow> (None, h1)
      | (True, h1) \<Rightarrow>
          (Some (fresh h1),
           h1\<lparr>arrays := (arrays h1)(fresh h1 \<mapsto> replicate n None), fresh := Suc (fresh h1)\<rparr>))"

definition free_str :: "nat \<Rightarrow> heap \<Rightarrow> fault + heap" where
  "free_str a h =
     (case strs h a of
        None \<Rightarrow> Inl BadPointer
      | Some _ \<Rightarrow> Inr (h\<lparr>strs := (strs h)(a := None)\<rparr>))"

text \<open>
  The C string a buffer holds: the bytes before the first NUL. Reading a buffer that
  holds no NUL runs off its end.
\<close>

definition c_str :: "string \<Rightarrow> string option" where
  "c_str buf = (if NUL \<in> set buf then Some (takeWhile (\<lambda>c. c \<noteq> NUL) buf) else None)"

definition read_str :: "heap \<Rightarrow> ptr \<Rightarrow> fault + string" where
  "read_str h p =
     (case p of
        None \<Rightarrow> Inl NullDeref
      | Some a \<Rightarrow>
          (case strs h a of
             None \<Rightarrow> Inl BadPointer
           | Some buf \<Rightarrow> (case c_str buf of None \<Rightarrow> Inl Overrun | Some s \<Rightarrow> Inr s)))"

text \<open>
  A \<open>const char *\<close> argument of the caller is the text it points to, or \<open>None\<close> for a
  null pointer; the C string is the text up to its first NUL, if it has one.
\<close>

definition c_text :: "string \<Rightarrow> string" where
  "c_text s = takeWhile (\<lambda>c. c \<noteq> NUL) s"

text \<open>\<open>strdup\<close>: a new buffer of exactly the string and its terminator.\<close>

definition strdup :: "string \<Rightarrow> heap \<Rightarrow> ptr \<times> heap" where
  "strdup s h = new_str (s @ [NUL]) h"

definition strdup_ptr :: "ptr \<Rightarrow> heap \<Rightarrow> fault + (ptr \<times> heap)" where
  "strdup_ptr p h = (case read_str h p of Inl e \<Rightarrow> Inl e | Inr s \<Rightarrow> Inr (strdup s h))"

text \<open>
  \<open>strncpy(dest, src, n)\<close> writes exactly \<open>n\<close> bytes: the first \<open>n\<close> characters of
  \<open>src\<close>, then NULs up to \<open>n\<close>. It writes no terminator when \<open>src\<close> has \<open>n\<close>
  characters or more.
\<close>

definition strncpy_buf :: "string \<Rightarrow> string \<Rightarrow> nat \<Rightarrow> fault + string" where
  "strncpy_buf buf s n =
     (if n \<le> length buf
      then Inr (take n s @ replicate (n - length s) NUL @ drop n buf)
      else Inl Overrun)"

text \<open>
  \<open>strncat(dest, src, n)\<close> appends at most \<open>n\<close> characters of \<open>src\<close> to the string in
  \<open>dest\<close> and then a terminator; \<open>strcat\<close> appends all of \<open>src\<close>.
\<close>

definition strncat_buf :: "string \<Rightarrow> string \<Rightarrow> nat \<Rightarrow> fault + string" where
  "strncat_buf buf s n =
     (case c_str buf of
        None \<Rightarrow> Inl Overrun
      | Some d \<Rightarrow>
          (let k = min (length s) n in
           if length d + k + 1 \<le> length buf
           then Inr (d @ take k s @ [NUL] @ drop (length d + k + 1) buf)
           else Inl Overrun))"

definition strcat_buf :: "string \<Rightarrow> string \<Rightarrow> fault + string" where
  "strcat_buf buf s = strncat_buf buf s (length s)"

definition upd_str :: "ptr \<Rightarrow> (string \<Rightarrow> fault + string) \<Rightarrow> heap \<Rightarrow> fault + heap" where
  "upd_str p f h =
     (case p of
        None \<Rightarrow> Inl NullDeref
      | Some a \<Rightarrow>
          (case strs h a of
             None \<Rightarrow> Inl BadPointer
           | Some buf \<Rightarrow>
               (case f buf of
                  Inl e \<Rightarrow> Inl e
                | Inr buf' \<Rightarrow> Inr (h\<lparr>strs := (strs h)(a \<mapsto> buf')\<rparr>))))"

text \<open>The assignment \<open>s[0] = '\0'\<close>.\<close>

definition truncate_buf :: "string \<Rightarrow> fault + string" where
  "truncate_buf buf = (case buf of [] \<Rightarrow> Inl Overrun | c # cs \<Rightarrow> Inr (NUL # cs))"

text \<open>
  \<open>realloc\<close> of a character buffer: on success the block moves to a new address, keeps
  its bytes up to the new size, and the bytes added are unwritten; on failure the block
  stays as it is.
\<close>

definition realloc_str :: "nat \<Rightarrow> nat \<Rightarrow> heap \<Rightarrow> fault + (ptr \<times> heap)" where
  "realloc_str a n h =
     (case strs h a of
        None \<Rightarrow> Inl BadPointer
      | Some buf \<Rightarrow>
          (case next_alloc h of
             (False, h1) \<Rightarrow> Inr (None, h1)
           | (True, h1) \<Rightarrow>
               Inr (Some (fresh h1),
                    h1\<lparr>strs := ((strs h1)(a := None))
                                 (fresh h1 \<mapsto> take n buf @ replicate (n - length buf) junk),
                       fresh := Suc (fresh h1)\<rparr>)))"

text \<open>
  \<open>realloc\<close> of the operand-pointer array to \<open>n\<close> slots; a null pointer makes it a
  \<open>malloc\<close>. The slots added are unwritten: they are modelled as null.
\<close>

definition realloc_array :: "ptr \<Rightarrow> nat \<Rightarrow> heap \<Rightarrow> fault + (ptr \<times> heap)" where
  "realloc_array p n h =
     (case p of
        None \<Rightarrow>
          (case next_alloc h of
             (False, h1) \<Rightarrow> Inr (None, h1)
           | (True, h1) \<Rightarrow>
               Inr (Some (fresh h1),
                    h1\<lparr>arrays := (arrays h1)(fresh h1 \<mapsto> replicate n None),
                       fresh := Suc (fresh h1)\<rparr>))
      | Some a \<Rightarrow>
          (case arrays h a of
             None \<Rightarrow> Inl BadPointer
           | Some xs \<Rightarrow>
               (case next_alloc h of
                  (False, h1) \<Rightarrow> Inr (None, h1)
                | (True, h1) \<Rightarrow>
                    Inr (Some (fresh h1),
                         h1\<lparr>arrays := ((arrays h1)(a := None))
                                 (fresh h1 \<mapsto> take n xs @ replicate (n - length xs) None),
                            fresh := Suc (fresh h1)\<rparr>))))"

text \<open>Reading and writing \<open>operands[i]\<close>.\<close>

definition read_slot :: "heap \<Rightarrow> ptr \<Rightarrow> nat \<Rightarrow> fault + ptr" where
  "read_slot h p i =
     (case p of
        None \<Rightarrow> Inl NullDeref
      | Some a \<Rightarrow>
          (case arrays h a of
             None \<Rightarrow> Inl BadPointer
           | Some xs \<Rightarrow> if i < length xs then Inr (xs ! i) else Inl Overrun))"

definition write_slot :: "ptr \<Rightarrow> nat \<Rightarrow> ptr \<Rightarrow> heap \<Rightarrow> fault + heap" where
  "write_slot p i v h =
     (case p of
        None \<Rightarrow> Inl NullDeref
      | Some a \<Rightarrow>
          (case arrays h a of
             None \<Rightarrow> Inl BadPointer
           | Some xs \<Rightarrow>
               if i < length xs then Inr (h\<lparr>arrays := (arrays h)(a \<mapsto> xs[i := v])\<rparr>)
               else Inl Overrun))"

text \<open>Assignments to fields of an allocated instruction or operand.\<close>

definition upd_insn :: "nat \<Rightarrow> (opdis_insn_t \<Rightarrow> opdis_insn_t) \<Rightarrow> heap \<Rightarrow> heap" where
  "upd_insn p f h = h\<lparr>insts := (insts h)(p := map_option f (insts h p))\<rparr>"

definition upd_op :: "nat \<Rightarrow> (opdis_op_t \<Rightarrow> opdis_op_t) \<Rightarrow> heap \<Rightarrow> heap" where
  "upd_op p f h = h\<lparr>opers := (opers h)(p := map_option f (opers h p))\<rparr>"

text \<open>
  The count that \<open>strncpy(dest, src, sz - 1)\<close> receives when \<open>sz\<close> is an
  \<open>unsigned char\<close> field: the subtraction is done on \<open>int\<close>, and the result is
  converted to the 64-bit \<open>size_t\<close> of the parameter.
\<close>

definition sz_minus_1 :: "8 word \<Rightarrow> nat" where
  "sz_minus_1 sz = unat (word_of_int (uint sz - 1) :: 64 word)"

section \<open>Operands (model.c)\<close>

definition opdis_op_alloc :: "heap \<Rightarrow> ptr \<times> heap" where
  "opdis_op_alloc h = calloc_op h"

text \<open>The \<open>size_t\<close> argument is stored in the \<open>unsigned char\<close> field \<open>ascii_sz\<close>.\<close>

definition opdis_op_alloc_fixed :: "nat \<Rightarrow> heap \<Rightarrow> ptr \<times> heap" where
  "opdis_op_alloc_fixed sz h =
     (case opdis_op_alloc h of
        (None, h1) \<Rightarrow> (None, h1)
      | (Some p, h1) \<Rightarrow>
          (let h2 = upd_op p (\<lambda>x. x\<lparr>op_fixed_size := 1, op_ascii_sz := of_nat sz\<rparr>) h1 in
           case calloc_str sz h2 of
             (None, h3) \<Rightarrow> (None, h3\<lparr>opers := (opers h3)(p := None)\<rparr>)
           | (Some b, h3) \<Rightarrow> (Some p, upd_op p (\<lambda>x. x\<lparr>op_ascii := Some b\<rparr>) h3)))"

text \<open>\<open>memcpy\<close> copies every field of the source, the fixed-size fields included.\<close>

definition opdis_op_dupe :: "ptr \<Rightarrow> heap \<Rightarrow> fault + (ptr \<times> heap)" where
  "opdis_op_dupe op h =
     (case opdis_op_alloc h of
        (None, h1) \<Rightarrow> Inr (None, h1)
      | (Some d, h1) \<Rightarrow>
          (case op of
             None \<Rightarrow> Inl NullDeref
           | Some q \<Rightarrow>
               (case opers h1 q of
                  None \<Rightarrow> Inl BadPointer
                | Some x \<Rightarrow>
                    (let h2 = h1\<lparr>opers := (opers h1)(d \<mapsto> x\<lparr>op_ascii := None\<rparr>)\<rparr> in
                     case op_ascii x of
                       None \<Rightarrow> Inr (Some d, h2)
                     | Some a \<Rightarrow>
                         (case strdup_ptr (Some a) h2 of
                            Inl e \<Rightarrow> Inl e
                          | Inr (None, h3) \<Rightarrow> Inr (None, h3\<lparr>opers := (opers h3)(d := None)\<rparr>)
                          | Inr (Some b, h3) \<Rightarrow>
                              Inr (Some d, upd_op d (\<lambda>y. y\<lparr>op_ascii := Some b\<rparr>) h3))))))"

text \<open>The string is released; the operand itself is not.\<close>

definition opdis_op_free :: "ptr \<Rightarrow> heap \<Rightarrow> fault + heap" where
  "opdis_op_free op h =
     (case op of
        None \<Rightarrow> Inr h
      | Some p \<Rightarrow>
          (case opers h p of
             None \<Rightarrow> Inl BadPointer
           | Some x \<Rightarrow> (case op_ascii x of None \<Rightarrow> Inr h | Some a \<Rightarrow> free_str a h)))"

definition opdis_op_set_ascii :: "ptr \<Rightarrow> string option \<Rightarrow> heap \<Rightarrow> fault + heap" where
  "opdis_op_set_ascii op text h =
     (case op of
        None \<Rightarrow> Inr h
      | Some p \<Rightarrow>
          (case text of
             None \<Rightarrow> Inr h
           | Some s \<Rightarrow>
               (case opers h p of
                  None \<Rightarrow> Inl BadPointer
                | Some x \<Rightarrow>
                    if op_fixed_size x \<noteq> 0
                    then upd_str (op_ascii x)
                           (\<lambda>buf. strncpy_buf buf (c_text s) (sz_minus_1 (op_ascii_sz x))) h
                    else
                      (case (case op_ascii x of None \<Rightarrow> Inr h | Some a \<Rightarrow> free_str a h) of
                         Inl e \<Rightarrow> Inl e
                       | Inr h1 \<Rightarrow>
                           (case strdup (c_text s) h1 of
                              (b, h2) \<Rightarrow> Inr (upd_op p (\<lambda>y. y\<lparr>op_ascii := b\<rparr>) h2))))))"

section \<open>Instructions (model.c)\<close>

definition opdis_insn_alloc :: "nat \<Rightarrow> heap \<Rightarrow> ptr \<times> heap" where
  "opdis_insn_alloc n h =
     (case calloc_insn h of
        (None, h1) \<Rightarrow> (None, h1)
      | (Some p, h1) \<Rightarrow>
          if n = 0 then (Some p, h1)
          else
            (case calloc_array n h1 of
               (None, h2) \<Rightarrow> (None, h2\<lparr>insts := (insts h2)(p := None)\<rparr>)
             | (Some a, h2) \<Rightarrow>
                 (Some p, upd_insn p (\<lambda>I. I\<lparr>operands := Some a, alloc_operands := n\<rparr>) h2)))"

text \<open>
  The loop of \<open>opdis_insn_free\<close> over the first \<open>num_operands\<close> slots. The counter is
  an \<open>int\<close>: incrementing it past \<open>2^31 - 1\<close> is undefined.
\<close>

function free_operands :: "ptr \<Rightarrow> nat \<Rightarrow> nat \<Rightarrow> heap \<Rightarrow> fault + heap" where
  "free_operands arr n i h =
     (if i < n then
        (case read_slot h arr i of
           Inl e \<Rightarrow> Inl e
         | Inr op \<Rightarrow>
             (case opdis_op_free op h of
                Inl e \<Rightarrow> Inl e
              | Inr h1 \<Rightarrow>
                  if 2 ^ 31 \<le> Suc i then Inl SignedOverflow
                  else free_operands arr n (Suc i) h1))
      else Inr h)"
  by pat_completeness auto
termination
  by (relation "measure (\<lambda>(arr, n, i, h). n - i)") auto

declare free_operands.simps [simp del]

text \<open>
  \<open>opdis_insn_free\<close> releases \<open>ascii\<close>, \<open>mnemonic\<close>, the strings of the operands in
  use, and the instruction; nothing else.
\<close>

definition opdis_insn_free :: "ptr \<Rightarrow> heap \<Rightarrow> fault + heap" where
  "opdis_insn_free insn h =
     (case insn of
        None \<Rightarrow> Inr h
      | Some p \<Rightarrow>
          (case insts h p of
             None \<Rightarrow> Inl BadPointer
           | Some I \<Rightarrow>
               (case (case ascii I of None \<Rightarrow> Inr h | Some a \<Rightarrow> free_str a h) of
                  Inl e \<Rightarrow> Inl e
                | Inr h1 \<Rightarrow>
                    (case (case mnemonic I of None \<Rightarrow> Inr h1 | Some a \<Rightarrow> free_str a h1) of
                       Inl e \<Rightarrow> Inl e
                     | Inr h2 \<Rightarrow>
                         (case free_operands (operands I) (num_operands I) 0 h2 of
                            Inl e \<Rightarrow> Inl e
                          | Inr h3 \<Rightarrow> Inr (h3\<lparr>insts := (insts h3)(p := None)\<rparr>))))))"

text \<open>\<open>PREFIX_SIZE\<close> applied to a \<open>size_t\<close>: the product wraps at \<open>2^64\<close>.\<close>

definition PREFIX_SIZE :: "nat \<Rightarrow> nat" where
  "PREFIX_SIZE mnem_size = (4 * mnem_size) mod 2 ^ 64"

text \<open>
  The loop of \<open>opdis_insn_alloc_fixed\<close>: slot \<open>i\<close> receives a fixed-size operand, and
  \<open>alloc_operands\<close> is incremented once more for it. The result is \<open>False\<close> when an
  operand could not be allocated and the instruction was released.
\<close>

function alloc_fixed_ops :: "nat \<Rightarrow> nat \<Rightarrow> nat \<Rightarrow> nat \<Rightarrow> heap \<Rightarrow> fault + (bool \<times> heap)" where
  "alloc_fixed_ops p osz n i h =
     (if i < n then
        (case opdis_op_alloc_fixed osz h of
           (Some q, h1) \<Rightarrow>
             (case insts h1 p of
                None \<Rightarrow> Inl BadPointer
              | Some I \<Rightarrow>
                  (case write_slot (operands I) i (Some q) h1 of
                     Inl e \<Rightarrow> Inl e
                   | Inr h2 \<Rightarrow>
                       (let h3 = upd_insn p (\<lambda>J. J\<lparr>alloc_operands := Suc (alloc_operands J)\<rparr>) h2 in
                        if 2 ^ 31 \<le> Suc i then Inl SignedOverflow
                        else alloc_fixed_ops p osz n (Suc i) h3)))
         | (None, h1) \<Rightarrow>
             (case opdis_insn_free (Some p) h1 of
                Inl e \<Rightarrow> Inl e
              | Inr h2 \<Rightarrow> Inr (False, h2)))
      else Inr (True, h))"
  by pat_completeness auto
termination
  by (relation "measure (\<lambda>(p, osz, n, i, h). n - i)") auto

declare alloc_fixed_ops.simps [simp del]

definition opdis_insn_alloc_fixed ::
    "nat \<Rightarrow> nat \<Rightarrow> nat \<Rightarrow> nat \<Rightarrow> heap \<Rightarrow> fault + (ptr \<times> heap)" where
  "opdis_insn_alloc_fixed asz msz n osz h =
     (case opdis_insn_alloc n h of
        (None, h1) \<Rightarrow> Inr (None, h1)
      | (Some p, h1) \<Rightarrow>
          (case calloc_str asz h1 of (pa, h2) \<Rightarrow>
           case calloc_str (PREFIX_SIZE msz) h2 of (pp, h3) \<Rightarrow>
           case calloc_str msz h3 of (pm, h4) \<Rightarrow>
           case calloc_str asz h4 of (pc, h5) \<Rightarrow>
             (let h6 = upd_insn p (\<lambda>I. I\<lparr>ascii := pa, prefixes := pp, mnemonic := pm,
                                             comment := pc\<rparr>) h5 in
              if pa = None \<or> pp = None \<or> pm = None then
                (case opdis_insn_free (Some p) h6 of
                   Inl e \<Rightarrow> Inl e
                 | Inr h7 \<Rightarrow> Inr (None, h7))
              else
                (case alloc_fixed_ops p osz n 0 h6 of
                   Inl e \<Rightarrow> Inl e
                 | Inr (False, h7) \<Rightarrow> Inr (None, h7)
                 | Inr (True, h7) \<Rightarrow>
                     Inr (Some p,
                          upd_insn p (\<lambda>I. I\<lparr>fixed_size := 1, ascii_sz := of_nat asz,
                                               mnemonic_sz := of_nat msz\<rparr>) h7)))))"

text \<open>
  \<open>opdis_insn_dupe\<close>. After the \<open>memcpy\<close> of the whole struct, four pointers of the
  copy are reset: \<open>ascii\<close>, \<open>mnemonic\<close>, \<open>prefixes\<close> and \<open>operands\<close>. A failed copy
  releases the new instruction and gives a null pointer; the helpers return \<open>False\<close>
  for that.
\<close>

definition dupe_fail :: "nat \<Rightarrow> heap \<Rightarrow> fault + (bool \<times> heap)" where
  "dupe_fail p h =
     (case opdis_insn_free (Some p) h of Inl e \<Rightarrow> Inl e | Inr h1 \<Rightarrow> Inr (False, h1))"

definition dupe_ascii :: "opdis_insn_t \<Rightarrow> nat \<Rightarrow> heap \<Rightarrow> fault + (bool \<times> heap)" where
  "dupe_ascii I p h =
     (case ascii I of
        None \<Rightarrow> Inr (True, h)
      | Some a \<Rightarrow>
          (case strdup_ptr (Some a) h of
             Inl e \<Rightarrow> Inl e
           | Inr (b, h1) \<Rightarrow>
               (let h2 = upd_insn p (\<lambda>J. J\<lparr>ascii := b\<rparr>) h1 in
                if b = None then dupe_fail p h2 else Inr (True, h2))))"

definition dupe_prefixes :: "opdis_insn_t \<Rightarrow> nat \<Rightarrow> heap \<Rightarrow> fault + (bool \<times> heap)" where
  "dupe_prefixes I p h =
     (case prefixes I of
        None \<Rightarrow> Inr (True, h)
      | Some a \<Rightarrow>
          (case strdup_ptr (Some a) h of
             Inl e \<Rightarrow> Inl e
           | Inr (b, h1) \<Rightarrow>
               (let h2 = upd_insn p (\<lambda>J. J\<lparr>prefixes := b\<rparr>) h1 in
                if b = None then dupe_fail p h2
                else Inr (True, upd_insn p (\<lambda>J. J\<lparr>num_prefixes := num_prefixes I\<rparr>) h2))))"

definition dupe_mnemonic :: "opdis_insn_t \<Rightarrow> nat \<Rightarrow> heap \<Rightarrow> fault + (bool \<times> heap)" where
  "dupe_mnemonic I p h =
     (case mnemonic I of
        None \<Rightarrow> Inr (True, h)
      | Some a \<Rightarrow>
          (case strdup_ptr (Some a) h of
             Inl e \<Rightarrow> Inl e
           | Inr (b, h1) \<Rightarrow>
               (let h2 = upd_insn p (\<lambda>J. J\<lparr>mnemonic := b\<rparr>) h1 in
                if b = None then dupe_fail p h2 else Inr (True, h2))))"

function dupe_operands :: "opdis_insn_t \<Rightarrow> nat \<Rightarrow> nat \<Rightarrow> heap \<Rightarrow> fault + (bool \<times> heap)" where
  "dupe_operands I p i h =
     (case insts h p of
        None \<Rightarrow> Inl BadPointer
      | Some N \<Rightarrow>
          if i < num_operands I \<and> i < alloc_operands N then
            (case read_slot h (operands I) i of
               Inl e \<Rightarrow> Inl e
             | Inr q \<Rightarrow>
                 (case opdis_op_dupe q h of
                    Inl e \<Rightarrow> Inl e
                  | Inr (None, h1) \<Rightarrow> dupe_fail p h1
                  | Inr (Some d, h1) \<Rightarrow>
                      (case write_slot (operands N) i (Some d) h1 of
                         Inl e \<Rightarrow> Inl e
                       | Inr h2 \<Rightarrow>
                           (let h3 = upd_insn p (\<lambda>J. J\<lparr>num_operands := Suc (num_operands J)\<rparr>) h2 in
                            if 2 ^ 31 \<le> Suc i then Inl SignedOverflow
                            else dupe_operands I p (Suc i) h3))))
          else Inr (True, h))"
  by pat_completeness auto
termination
  by (relation "measure (\<lambda>(I, p, i, h). num_operands I - i)") auto

declare dupe_operands.simps [simp del]

definition opdis_insn_dupe :: "ptr \<Rightarrow> heap \<Rightarrow> fault + (ptr \<times> heap)" where
  "opdis_insn_dupe insn h =
     (case insn of
        None \<Rightarrow> Inl NullDeref
      | Some s \<Rightarrow>
          (case insts h s of
             None \<Rightarrow> Inl BadPointer
           | Some I \<Rightarrow>
               (case opdis_insn_alloc (num_operands I) h of
                  (None, h1) \<Rightarrow> Inr (None, h1)
                | (Some p, h1) \<Rightarrow>
                    (case insts h1 p of
                       None \<Rightarrow> Inl BadPointer
                     | Some N \<Rightarrow>
                         (let h2 = h1\<lparr>insts := (insts h1)
                                      (p \<mapsto> I\<lparr>ascii := None, mnemonic := None, prefixes := None,
                                              operands := operands N\<rparr>)\<rparr> in
                          case dupe_ascii I p h2 of
                            Inl e \<Rightarrow> Inl e
                          | Inr (False, h3) \<Rightarrow> Inr (None, h3)
                          | Inr (True, h3) \<Rightarrow>
                              (case dupe_prefixes I p h3 of
                                 Inl e \<Rightarrow> Inl e
                               | Inr (False, h4) \<Rightarrow> Inr (None, h4)
                               | Inr (True, h4) \<Rightarrow>
                                   (case dupe_mnemonic I p h4 of
                                      Inl e \<Rightarrow> Inl e
                                    | Inr (False, h5) \<Rightarrow> Inr (None, h5)
                                    | Inr (True, h5) \<Rightarrow>
                                        (let h6 = upd_insn p (\<lambda>J. J\<lparr>num_operands := 0\<rparr>) h5 in
                                         case dupe_operands I p 0 h6 of
                                           Inl e \<Rightarrow> Inl e
                                         | Inr (False, h7) \<Rightarrow> Inr (None, h7)
                                         | Inr (True, h7) \<Rightarrow> Inr (Some p, h7)))))))))"

text \<open>\<open>opdis_insn_clear\<close>: the \<open>comment\<close> field is not among the fields it resets.\<close>

definition clear_str :: "ptr \<Rightarrow> heap \<Rightarrow> fault + heap" where
  "clear_str p h = (case p of None \<Rightarrow> Inr h | Some a \<Rightarrow> upd_str (Some a) truncate_buf h)"

definition opdis_insn_clear :: "ptr \<Rightarrow> heap \<Rightarrow> fault + heap" where
  "opdis_insn_clear i h =
     (case i of
        None \<Rightarrow> Inr h
      | Some p \<Rightarrow>
          (case insts h p of
             None \<Rightarrow> Inl BadPointer
           | Some I \<Rightarrow>
               (let h1 = upd_insn p (\<lambda>J. J\<lparr>status := opdis_decode_invalid\<rparr>) h in
                case clear_str (ascii I) h1 of
                  Inl e \<Rightarrow> Inl e
                | Inr h2 \<Rightarrow>
                    (let h3 = upd_insn p (\<lambda>J. J\<lparr>num_prefixes := 0\<rparr>) h2 in
                     case clear_str (prefixes I) h3 of
                       Inl e \<Rightarrow> Inl e
                     | Inr h4 \<Rightarrow>
                         (case clear_str (mnemonic I) h4 of
                            Inl e \<Rightarrow> Inl e
                          | Inr h5 \<Rightarrow>
                              Inr (upd_insn p (\<lambda>J. J\<lparr>num_operands := 0, target := None,
                                                          dest := None, src := None\<rparr>) h5))))))"

definition opdis_insn_set_ascii :: "ptr \<Rightarrow> string option \<Rightarrow> heap \<Rightarrow> fault + heap" where
  "opdis_insn_set_ascii i text h =
     (case i of
        None \<Rightarrow> Inr h
      | Some p \<Rightarrow>
          (case text of
             None \<Rightarrow> Inr h
           | Some s \<Rightarrow>
               (case insts h p of
                  None \<Rightarrow> Inl BadPointer
                | Some I \<Rightarrow>
                    if fixed_size I \<noteq> 0
                    then upd_str (ascii I)
                           (\<lambda>buf. strncpy_buf buf (c_text s) (sz_minus_1 (ascii_sz I))) h
                    else
                      (case (case ascii I of None \<Rightarrow> Inr h | Some a \<Rightarrow> free_str a h) of
                         Inl e \<Rightarrow> Inl e
                       | Inr h1 \<Rightarrow>
                           (case strdup (c_text s) h1 of
                              (b, h2) \<Rightarrow> Inr (upd_insn p (\<lambda>J. J\<lparr>ascii := b\<rparr>) h2))))))"

definition opdis_insn_set_mnemonic :: "ptr \<Rightarrow> string option \<Rightarrow> heap \<Rightarrow> fault + heap" where
  "opdis_insn_set_mnemonic i text h =
     (case i of
        None \<Rightarrow> Inr h
      | Some p \<Rightarrow>
          (case text of
             None \<Rightarrow> Inr h
           | Some s \<Rightarrow>
               (case insts h p of
                  None \<Rightarrow> Inl BadPointer
                | Some I \<Rightarrow>
                    if fixed_size I \<noteq> 0
                    then upd_str (mnemonic I)
                           (\<lambda>buf. strncpy_buf buf (c_text s) (sz_minus_1 (mnemonic_sz I))) h
                    else
                      (case (case mnemonic I of None \<Rightarrow> Inr h | Some a \<Rightarrow> free_str a h) of
                         Inl e \<Rightarrow> Inl e
                       | Inr h1 \<Rightarrow>
                           (case strdup (c_text s) h1 of
                              (b, h2) \<Rightarrow> Inr (upd_insn p (\<lambda>J. J\<lparr>mnemonic := b\<rparr>) h2))))))"

text \<open>
  The local \<open>unsigned int size\<close> of the fixed-size branches: the capacity read from the
  8-bit field minus the length of the string, reduced to 32 bits. The counts
  \<open>size - 1\<close> and \<open>size - 2\<close> passed to \<open>strncat\<close> are computed in \<open>unsigned int\<close>
  as well, so they wrap below zero.
\<close>

definition room :: "nat \<Rightarrow> nat \<Rightarrow> 32 word" where
  "room cap len = word_of_int (int cap - int len)"

definition opdis_insn_add_prefix :: "ptr \<Rightarrow> string option \<Rightarrow> heap \<Rightarrow> fault + heap" where
  "opdis_insn_add_prefix i text h =
     (case i of
        None \<Rightarrow> Inr h
      | Some p \<Rightarrow>
          (case text of
             None \<Rightarrow> Inr h
           | Some s \<Rightarrow>
               (case insts h p of
                  None \<Rightarrow> Inl BadPointer
                | Some I \<Rightarrow>
                    if fixed_size I \<noteq> 0 then
                      (case read_str h (prefixes I) of
                         Inl e \<Rightarrow> Inl e
                       | Inr d \<Rightarrow>
                           (let size = room (4 * unat (mnemonic_sz I)) (length d) in
                            case upd_str (prefixes I)
                                   (\<lambda>buf. strncat_buf buf '' '' (unat (size - 1))) h of
                              Inl e \<Rightarrow> Inl e
                            | Inr h1 \<Rightarrow>
                                upd_str (prefixes I)
                                  (\<lambda>buf. strncat_buf buf (c_text s) (unat (size - 2))) h1))
                    else
                      (case prefixes I of
                         Some a \<Rightarrow>
                           (case read_str h (Some a) of
                              Inl e \<Rightarrow> Inl e
                            | Inr d \<Rightarrow>
                                (case realloc_str a (length d + length (c_text s) + 2) h of
                                   Inl e \<Rightarrow> Inl e
                                 | Inr (None, h1) \<Rightarrow> Inr h1
                                 | Inr (Some b, h1) \<Rightarrow>
                                     (let h2 = upd_insn p (\<lambda>J. J\<lparr>prefixes := Some b\<rparr>) h1 in
                                      case upd_str (Some b) (\<lambda>buf. strcat_buf buf '' '') h2 of
                                        Inl e \<Rightarrow> Inl e
                                      | Inr h3 \<Rightarrow>
                                          upd_str (Some b) (\<lambda>buf. strcat_buf buf (c_text s)) h3)))
                       | None \<Rightarrow>
                           (case calloc_str (length (c_text s) + 1) h of
                              (b, h1) \<Rightarrow>
                                (let h2 = upd_insn p (\<lambda>J. J\<lparr>prefixes := b\<rparr>) h1 in
                                 if b = None then Inr h2
                                 else upd_str b (\<lambda>buf. strcat_buf buf (c_text s)) h2))))))"

text \<open>
  \<open>opdis_insn_add_comment\<close>. The fixed-size branch separates with a blank, as the
  branch of \<open>opdis_insn_add_prefix\<close> it mirrors, and before the first comment too; the
  other branch separates with a semicolon.
\<close>

definition opdis_insn_add_comment :: "ptr \<Rightarrow> string option \<Rightarrow> heap \<Rightarrow> fault + heap" where
  "opdis_insn_add_comment i text h =
     (case i of
        None \<Rightarrow> Inr h
      | Some p \<Rightarrow>
          (case text of
             None \<Rightarrow> Inr h
           | Some s \<Rightarrow>
               (case insts h p of
                  None \<Rightarrow> Inl BadPointer
                | Some I \<Rightarrow>
                    if fixed_size I \<noteq> 0 then
                      (case read_str h (comment I) of
                         Inl e \<Rightarrow> Inl e
                       | Inr d \<Rightarrow>
                           (let size = room (unat (ascii_sz I)) (length d) in
                            case upd_str (comment I)
                                   (\<lambda>buf. strncat_buf buf '' '' (unat (size - 1))) h of
                              Inl e \<Rightarrow> Inl e
                            | Inr h1 \<Rightarrow>
                                upd_str (comment I)
                                  (\<lambda>buf. strncat_buf buf (c_text s) (unat (size - 2))) h1))
                    else
                      (case comment I of
                         Some a \<Rightarrow>
                           (case read_str h (Some a) of
                              Inl e \<Rightarrow> Inl e
                            | Inr d \<Rightarrow>
                                (case realloc_str a (length d + length (c_text s) + 2) h of
                                   Inl e \<Rightarrow> Inl e
                                 | Inr (None, h1) \<Rightarrow> Inr h1
                                 | Inr (Some b, h1) \<Rightarrow>
                                     (let h2 = upd_insn p (\<lambda>J. J\<lparr>comment := Some b\<rparr>) h1 in
                                      case upd_str (Some b) (\<lambda>buf. strcat_buf buf '';'') h2 of
                                        Inl e \<Rightarrow> Inl e
                                      | Inr h3 \<Rightarrow>
                                          upd_str (Some b) (\<lambda>buf. strcat_buf buf (c_text s)) h3)))
                       | None \<Rightarrow>
                           (case calloc_str (length (c_text s) + 1) h of
                              (b, h1) \<Rightarrow>
                                (let h2 = upd_insn p (\<lambda>J. J\<lparr>comment := b\<rparr>) h1 in
                                 if b = None then Inr h2
                                 else upd_str b (\<lambda>buf. strcat_buf buf (c_text s)) h2))))))"

text \<open>
  \<open>opdis_insn_add_operand\<close>. The result is the \<open>int\<close> returned, as a truth value. When
  \<open>realloc\<close> fails, the increment of \<open>alloc_operands\<close> is taken back.
\<close>

definition opdis_insn_add_operand :: "ptr \<Rightarrow> ptr \<Rightarrow> heap \<Rightarrow> fault + (bool \<times> heap)" where
  "opdis_insn_add_operand i op h =
     (case i of
        None \<Rightarrow> Inr (False, h)
      | Some p \<Rightarrow>
          (case op of
             None \<Rightarrow> Inr (False, h)
           | Some q \<Rightarrow>
               (case insts h p of
                  None \<Rightarrow> Inl BadPointer
                | Some I \<Rightarrow>
                    if num_operands I < alloc_operands I then
                      (case write_slot (operands I) (num_operands I) (Some q) h of
                         Inl e \<Rightarrow> Inl e
                       | Inr h1 \<Rightarrow>
                           Inr (True, upd_insn p (\<lambda>J. J\<lparr>num_operands := Suc (num_operands J)\<rparr>) h1))
                    else
                      (let h1 = upd_insn p (\<lambda>J. J\<lparr>alloc_operands := Suc (alloc_operands J)\<rparr>) h in
                       case realloc_array (operands I) (Suc (alloc_operands I)) h1 of
                         Inl e \<Rightarrow> Inl e
                       | Inr (None, h2) \<Rightarrow>
                           Inr (False, upd_insn p (\<lambda>J. J\<lparr>alloc_operands := alloc_operands J - 1\<rparr>) h2)
                       | Inr (Some a, h2) \<Rightarrow>
                           (let h3 = upd_insn p (\<lambda>J. J\<lparr>operands := Some a\<rparr>) h2 in
                            case write_slot (Some a) (num_operands I) (Some q) h3 of
                              Inl e \<Rightarrow> Inl e
                            | Inr h4 \<Rightarrow>
                                Inr (True, upd_insn p (\<lambda>J. J\<lparr>num_operands := Suc (num_operands J)\<rparr>) h4))))))"

section \<open>Observations\<close>

text \<open>
  What a caller sees through a pointer: the instruction or operand at an address, the
  string in a buffer, the size of a buffer, the slots of the operand array.
\<close>

definition str_at :: "heap \<Rightarrow> ptr \<Rightarrow> string option" where
  "str_at h p = (case read_str h p of Inl e \<Rightarrow> None | Inr s \<Rightarrow> Some s)"

definition cap_at :: "heap \<Rightarrow> ptr \<Rightarrow> nat option" where
  "cap_at h p = (case p of None \<Rightarrow> None | Some a \<Rightarrow> map_option length (strs h a))"

definition insn_at :: "heap \<Rightarrow> ptr \<Rightarrow> opdis_insn_t option" where
  "insn_at h p = (case p of None \<Rightarrow> None | Some a \<Rightarrow> insts h a)"

definition op_at :: "heap \<Rightarrow> ptr \<Rightarrow> opdis_op_t option" where
  "op_at h p = (case p of None \<Rightarrow> None | Some a \<Rightarrow> opers h a)"

definition slots_at :: "heap \<Rightarrow> ptr \<Rightarrow> ptr list" where
  "slots_at h p = (case p of None \<Rightarrow> [] | Some a \<Rightarrow> (case arrays h a of None \<Rightarrow> [] | Some xs \<Rightarrow> xs))"

text \<open>Running one call after another: the first fault ends the run.\<close>

definition and_then :: "fault + 'a \<Rightarrow> ('a \<Rightarrow> fault + 'b) \<Rightarrow> fault + 'b" where
  "and_then m f = (case m of Inl e \<Rightarrow> Inl e | Inr x \<Rightarrow> f x)"

text \<open>
  The invariant of the accessors: each of \<open>target\<close>, \<open>dest\<close> and \<open>src\<close> is null or
  one of the pointers in the operand array of the same instruction.
\<close>

definition accessors_ok :: "heap \<Rightarrow> ptr \<Rightarrow> bool" where
  "accessors_ok h p =
     (case insn_at h p of
        None \<Rightarrow> False
      | Some I \<Rightarrow>
          (target I = None \<or> target I \<in> set (slots_at h (operands I))) \<and>
          (dest I = None \<or> dest I \<in> set (slots_at h (operands I))) \<and>
          (src I = None \<or> src I \<in> set (slots_at h (operands I))))"

text \<open>
  A fixed-size instruction (capacity 16) that carries the comment \<open>old\<close>: the
  instruction is at address 0, its \<open>ascii\<close>, \<open>prefixes\<close>, \<open>mnemonic\<close> and
  \<open>comment\<close> buffers at 1, 2, 3 and 4.
\<close>

definition comment_example :: heap where
  "comment_example =
     (case and_then (opdis_insn_alloc_fixed 16 4 0 0 (heap_init []))
             (\<lambda>(p, h). opdis_insn_add_comment p (Some ''old'') h) of
        Inl e \<Rightarrow> heap_init []
      | Inr h \<Rightarrow> h)"

section \<open>Well-formed operand arrays, and callers\<close>

text \<open>
  The invariant of the operand array: it has \<open>alloc_operands\<close> slots, of which the first
  \<open>num_operands\<close> are in use; without slots there may be no array at all.
\<close>

definition operands_ok :: "heap \<Rightarrow> opdis_insn_t \<Rightarrow> bool" where
  "operands_ok h I =
     (num_operands I \<le> alloc_operands I \<and>
      (case operands I of
         None \<Rightarrow> alloc_operands I = 0
       | Some a \<Rightarrow>
           (case arrays h a of None \<Rightarrow> False | Some xs \<Rightarrow> length xs = alloc_operands I)))"

text \<open>A caller that adds operands one after another and counts the calls that succeed.\<close>

fun add_operand_list :: "ptr \<Rightarrow> ptr list \<Rightarrow> heap \<Rightarrow> fault + (nat \<times> heap)" where
  "add_operand_list i [] h = Inr (0, h)"
| "add_operand_list i (op # ops) h =
     (case opdis_insn_add_operand i op h of
        Inl e \<Rightarrow> Inl e
      | Inr (ok, h1) \<Rightarrow>
          (case add_operand_list i ops h1 of
             Inl e \<Rightarrow> Inl e
           | Inr (k, h2) \<Rightarrow> Inr ((if ok then 1 else 0) + k, h2)))"

text \<open>
  An instruction allocated for two operands (at address 0, its array at 1) and three
  operands (at 2, 3 and 4); the next allocation request will fail, the ones after it
  succeed.
\<close>

definition operand_example :: heap where
  "operand_example =
     (case opdis_insn_alloc 2 (heap_init [True, True, True, True, True, False]) of (p, h0) \<Rightarrow>
      case opdis_op_alloc h0 of (q1, h1) \<Rightarrow>
      case opdis_op_alloc h1 of (q2, h2) \<Rightarrow>
      case opdis_op_alloc h2 of (q3, h3) \<Rightarrow> h3)"

section \<open>Fixed-size operands in the slots\<close>

text \<open>
  What \<open>opdis_insn_alloc_fixed\<close> leaves in an operand slot: a pointer to an operand with
  \<open>fixed_size = 1\<close>, the capacity recorded in its 8-bit field, and a zeroed
  \<open>ascii\<close> buffer of the capacity asked for.
\<close>

definition fixed_operand_at :: "heap \<Rightarrow> nat \<Rightarrow> ptr \<Rightarrow> bool" where
  "fixed_operand_at h osz q =
     (case op_at h q of
        None \<Rightarrow> False
      | Some x \<Rightarrow>
          op_fixed_size x = 1 \<and> op_ascii_sz x = of_nat osz \<and>
          (case op_ascii x of
             None \<Rightarrow> False
           | Some c \<Rightarrow> strs h c = Some (replicate osz NUL)))"

text \<open>
  The same with the addresses in view, as the allocation loop produces it: the operand
  at an address \<open>b\<close>, its buffer at the next one, both allocated.
\<close>

definition placed :: "heap \<Rightarrow> nat \<Rightarrow> ptr \<Rightarrow> bool" where
  "placed h osz q =
     (\<exists>b. q = Some b \<and> Suc b < fresh h \<and>
          opers h b = Some (op_zero\<lparr>op_fixed_size := 1, op_ascii_sz := of_nat osz,
                                       op_ascii := Some (Suc b)\<rparr>) \<and>
          strs h (Suc b) = Some (replicate osz NUL))"

text \<open>
  A fixed-size instruction for two operands, all capacities 8, allocated on the empty
  heap: the instruction is at address 0.
\<close>

definition fixed_example :: heap where
  "fixed_example =
     (case opdis_insn_alloc_fixed 8 4 2 8 (heap_init []) of
        Inl e \<Rightarrow> heap_init []
      | Inr (p, h) \<Rightarrow> h)"

section \<open>The invariant of a fixed-size buffer\<close>

text \<open>
  A buffer and the capacity recorded for it in an 8-bit field agree when the recorded
  capacity is at least 1 and at most the size of the buffer, and every byte from
  position \<open>capacity - 1\<close> on is NUL: \<open>strncpy\<close> with the count \<open>capacity - 1\<close>
  never writes there. \<open>fixed_field_ok\<close> says it of a string field of an object, for a
  buffer of \<open>c\<close> bytes whose recorded capacity is \<open>c\<close> reduced to 8 bits.
\<close>

definition fixed_buf_ok :: "string \<Rightarrow> 8 word \<Rightarrow> bool" where
  "fixed_buf_ok buf sz =
     (1 \<le> unat sz \<and> unat sz \<le> length buf \<and>
      drop (unat sz - 1) buf = replicate (length buf - (unat sz - 1)) NUL)"

definition fixed_field_ok :: "heap \<Rightarrow> ptr \<Rightarrow> 8 word \<Rightarrow> nat \<Rightarrow> bool" where
  "fixed_field_ok h p sz c =
     (case p of
        None \<Rightarrow> False
      | Some a \<Rightarrow>
          (case strs h a of
             None \<Rightarrow> False
           | Some buf \<Rightarrow> length buf = c \<and> sz = of_nat c \<and> fixed_buf_ok buf sz))"

text \<open>A fixed-size instruction of capacity 260, allocated on the empty heap at address 0.\<close>

definition wide_example :: heap where
  "wide_example =
     (case opdis_insn_alloc_fixed 260 4 0 0 (heap_init []) of
        Inl e \<Rightarrow> heap_init []
      | Inr (p, h) \<Rightarrow> h)"

text \<open>
  An instruction without the fields \<open>opdis_insn_dupe\<close> sets anew: the three strings, the
  operand array and the count of operands in use.
\<close>

definition unowned :: "opdis_insn_t \<Rightarrow> opdis_insn_t" where
  "unowned I = I\<lparr>ascii := None, mnemonic := None, prefixes := None, operands := None,
                 num_operands := 0\<rparr>"

section \<open>Evaluating the model\<close>

lemmas model_defs =
  and_then_def heap_init_def NUL_def junk_def next_alloc_def new_str_def calloc_str_def
  calloc_op_def calloc_insn_def calloc_array_def free_str_def c_str_def read_str_def
  c_text_def strdup_def strdup_ptr_def strncpy_buf_def strncat_buf_def strcat_buf_def
  upd_str_def truncate_buf_def realloc_str_def realloc_array_def read_slot_def
  write_slot_def upd_insn_def upd_op_def opdis_op_alloc_def
  opdis_op_alloc_fixed_def opdis_op_dupe_def opdis_op_free_def opdis_op_set_ascii_def
  opdis_insn_alloc_def opdis_insn_free_def PREFIX_SIZE_def opdis_insn_alloc_fixed_def
  dupe_fail_def dupe_ascii_def dupe_prefixes_def dupe_mnemonic_def opdis_insn_dupe_def
  clear_str_def opdis_insn_clear_def opdis_insn_set_ascii_def opdis_insn_set_mnemonic_def
  room_def opdis_insn_add_prefix_def opdis_insn_add_comment_def opdis_insn_add_operand_def
  str_at_def cap_at_def insn_at_def op_at_def slots_at_def insn_zero_def op_zero_def
  opdis_decode_invalid_def free_operands.simps alloc_fixed_ops.simps dupe_operands.simps

lemma replicate_numeral: "replicate (numeral k) x = x # replicate (pred_numeral k) x"
  by (simp add: numeral_eq_Suc)

text \<open>Assignments to a field of an instruction or of an operand leave the rest of the heap alone.\<close>

lemma upd_insn_frame [simp]:
  "strs (upd_insn p f h) = strs h" "opers (upd_insn p f h) = opers h"
  "arrays (upd_insn p f h) = arrays h" "fresh (upd_insn p f h) = fresh h"
  "alloc_plan (upd_insn p f h) = alloc_plan h"
  "insts (upd_insn p f h) = (insts h)(p := map_option f (insts h p))"
  by (simp_all add: upd_insn_def)

lemma upd_op_frame [simp]:
  "strs (upd_op p f h) = strs h" "insts (upd_op p f h) = insts h"
  "arrays (upd_op p f h) = arrays h" "fresh (upd_op p f h) = fresh h"
  "alloc_plan (upd_op p f h) = alloc_plan h"
  "opers (upd_op p f h) = (opers h)(p := map_option f (opers h p))"
  by (simp_all add: upd_op_def)


subsection \<open>The counts computed from the 8-bit capacity fields\<close>

lemma sz_minus_1_zero: "sz_minus_1 0 = 2 ^ 64 - 1"
  by (simp add: sz_minus_1_def unsigned_minus_1_eq_mask mask_eq_exp_minus_1)

lemma sz_minus_1_256: "sz_minus_1 256 = 2 ^ 64 - 1"
proof -
  have "(256 :: 8 word) = 0" by simp
  then show ?thesis by (simp only: sz_minus_1_zero)
qed

lemma sz_minus_1_pos: "sz \<noteq> 0 \<Longrightarrow> sz_minus_1 sz = unat sz - 1"
proof -
  assume nz: "sz \<noteq> 0"
  have "uint sz \<noteq> 0" using nz by (simp add: uint_0_iff)
  then have k0: "0 \<le> uint sz - 1" using uint_nonnegative [of sz] by linarith
  have "uint sz < 2 ^ 8" using uint_bounded [of sz] by simp
  then have k1: "uint sz - 1 < 2 ^ 64" by simp
  have tb: "take_bit 64 (uint sz - 1) = uint sz - 1"
    by (rule take_bit_int_eq_self [OF k0 k1])
  have "sz_minus_1 sz = nat (take_bit 64 (uint sz - 1))"
    unfolding sz_minus_1_def by (simp only: unsigned_of_int len_bit0 len_num1 of_nat_id) simp
  also have "\<dots> = nat (uint sz - 1)" by (simp only: tb)
  also have "\<dots> = nat (uint sz) - 1" using k0 by linarith
  finally show ?thesis by simp
qed

lemma room_val: "len \<le> cap \<Longrightarrow> cap < 2 ^ 32 \<Longrightarrow> unat (room cap len) = cap - len"
proof -
  assume a: "len \<le> cap" "cap < 2 ^ 32"
  have "(word_of_int (int cap - int len) :: 32 word) = of_nat (cap - len)" using a(1) by simp
  then have "unat (room cap len) = unat (of_nat (cap - len) :: 32 word)"
    by (simp only: room_def)
  moreover have "cap - len < 2 ^ 32" using a by simp
  ultimately show ?thesis by (simp add: unat_of_nat)
qed


section \<open>Properties of the classification predicates\<close>

text \<open>
  C7. \<open>opdis_insn_fallthrough\<close> answers false exactly when the category is control flow
  and the flag is return or jump. In every other case it answers true: whatever the
  status mask says (the mask is not read), for every other flag value, and for a null
  pointer.
\<close>

theorem fallthrough_false_iff:
  "opdis_insn_fallthrough (Some I) =
     (\<not> (category I = opdis_insn_cat_cflow \<and>
         (flags_cflow I = opdis_cflow_flag_ret \<or> flags_cflow I = opdis_cflow_flag_jmp)))
   \<and> opdis_insn_fallthrough (Some (I\<lparr>status := s\<rparr>)) = opdis_insn_fallthrough (Some I)
   \<and> opdis_insn_fallthrough None"
  by (simp add: opdis_insn_fallthrough_def)

theorem fallthrough_false_iff_witness:
  "\<not> opdis_insn_fallthrough
       (Some (insn_zero\<lparr>category := opdis_insn_cat_cflow, flags_cflow := opdis_cflow_flag_ret\<rparr>))
   \<and> \<not> opdis_insn_fallthrough
       (Some (insn_zero\<lparr>category := opdis_insn_cat_cflow, flags_cflow := opdis_cflow_flag_jmp\<rparr>))
   \<and> opdis_insn_fallthrough
       (Some (insn_zero\<lparr>category := opdis_insn_cat_cflow, flags_cflow := opdis_cflow_flag_other 99\<rparr>))
   \<and> opdis_insn_fallthrough
       (Some (insn_zero\<lparr>category := opdis_insn_cat_stack, flags_cflow := opdis_cflow_flag_jmp\<rparr>))"
  using
    fallthrough_false_iff [of "insn_zero\<lparr>category := opdis_insn_cat_cflow, flags_cflow := opdis_cflow_flag_ret\<rparr>" 0]
    fallthrough_false_iff [of "insn_zero\<lparr>category := opdis_insn_cat_cflow, flags_cflow := opdis_cflow_flag_jmp\<rparr>" 0]
    fallthrough_false_iff [of "insn_zero\<lparr>category := opdis_insn_cat_cflow, flags_cflow := opdis_cflow_flag_other 99\<rparr>" 0]
    fallthrough_false_iff [of "insn_zero\<lparr>category := opdis_insn_cat_stack, flags_cflow := opdis_cflow_flag_jmp\<rparr>" 0]
  by (simp add: insn_zero_def)

text \<open>
  C3. The specification makes the answer of \<open>opdis_insn_is_branch\<close> depend on the
  status mask. The function does not read the mask: for a jump whose status is
  \<open>opdis_decode_invalid\<close> the answer is true, so the stated equivalence fails.
\<close>

theorem is_branch_status_counterexample:
  "\<not> (opdis_insn_is_branch
          (Some (insn_zero\<lparr>category := opdis_insn_cat_cflow, flags_cflow := opdis_cflow_flag_jmp\<rparr>))
        = (mnem_flags_decoded
             (insn_zero\<lparr>category := opdis_insn_cat_cflow, flags_cflow := opdis_cflow_flag_jmp\<rparr>)
           \<and> category
               (insn_zero\<lparr>category := opdis_insn_cat_cflow, flags_cflow := opdis_cflow_flag_jmp\<rparr>)
             = opdis_insn_cat_cflow
           \<and> flags_cflow
               (insn_zero\<lparr>category := opdis_insn_cat_cflow, flags_cflow := opdis_cflow_flag_jmp\<rparr>)
             \<in> {opdis_cflow_flag_call, opdis_cflow_flag_callcc,
                 opdis_cflow_flag_jmp, opdis_cflow_flag_jmpcc}))"
  by (simp add: opdis_insn_is_branch_def mnem_flags_decoded_def insn_zero_def
      opdis_decode_mnem_flags_def)

text \<open>
  C3, amended. \<open>opdis_insn_is_branch\<close> answers true exactly when the category is control
  flow and the flag is call, conditional call, jump or conditional jump; the status
  mask has no influence on the answer, and the answer for a null pointer is false.
\<close>

theorem is_branch_iff:
  "opdis_insn_is_branch (Some I) =
     (category I = opdis_insn_cat_cflow \<and>
      flags_cflow I \<in> {opdis_cflow_flag_call, opdis_cflow_flag_callcc,
                        opdis_cflow_flag_jmp, opdis_cflow_flag_jmpcc})
   \<and> opdis_insn_is_branch (Some (I\<lparr>status := s\<rparr>)) = opdis_insn_is_branch (Some I)
   \<and> \<not> opdis_insn_is_branch None"
  by (simp add: opdis_insn_is_branch_def)

theorem is_branch_iff_witness:
  "opdis_insn_is_branch
     (Some (insn_zero\<lparr>category := opdis_insn_cat_cflow, flags_cflow := opdis_cflow_flag_jmp\<rparr>))
   \<and> \<not> opdis_insn_is_branch
       (Some (insn_zero\<lparr>category := opdis_insn_cat_cflow, flags_cflow := opdis_cflow_flag_ret\<rparr>))
   \<and> \<not> opdis_insn_is_branch
       (Some (insn_zero\<lparr>category := opdis_insn_cat_io, flags_cflow := opdis_cflow_flag_jmp\<rparr>))"
  using
    is_branch_iff [of "insn_zero\<lparr>category := opdis_insn_cat_cflow, flags_cflow := opdis_cflow_flag_jmp\<rparr>" 0]
    is_branch_iff [of "insn_zero\<lparr>category := opdis_insn_cat_cflow, flags_cflow := opdis_cflow_flag_ret\<rparr>" 0]
    is_branch_iff [of "insn_zero\<lparr>category := opdis_insn_cat_io, flags_cflow := opdis_cflow_flag_jmp\<rparr>" 0]
  by (simp add: insn_zero_def)


section \<open>Strings in buffers\<close>

lemma c_str_SomeD:
  assumes "c_str buf = Some d"
  shows "NUL \<notin> set d" and "buf = d @ NUL # drop (Suc (length d)) buf" and "length d < length buf"
proof -
  from assms have mem: "NUL \<in> set buf" and d: "d = takeWhile (\<lambda>c. c \<noteq> NUL) buf"
    by (auto simp: c_str_def split: if_splits)
  show "NUL \<notin> set d" using d by (auto dest: set_takeWhileD)
  have dw: "dropWhile (\<lambda>c. c \<noteq> NUL) buf \<noteq> []" using mem by (simp add: dropWhile_eq_Nil_conv)
  then have hd: "hd (dropWhile (\<lambda>c. c \<noteq> NUL) buf) = NUL"
    using hd_dropWhile [of "\<lambda>c. c \<noteq> NUL" buf] by simp
  have split: "buf = d @ dropWhile (\<lambda>c. c \<noteq> NUL) buf" using d by simp
  obtain r where r: "dropWhile (\<lambda>c. c \<noteq> NUL) buf = NUL # r"
    using dw hd by (cases "dropWhile (\<lambda>c. c \<noteq> NUL) buf") auto
  have eq: "buf = d @ NUL # r" using split r by simp
  then have "drop (Suc (length d)) buf = r"
    by (metis append_eq_conv_conj drop_Suc_Cons drop_drop plus_1_eq_Suc drop0 append_Cons append_Nil Suc_eq_plus1 add.commute length_append)
  with eq show "buf = d @ NUL # drop (Suc (length d)) buf" by simp
  from eq show "length d < length buf" by (metis length_append length_Cons less_add_Suc1 add_Suc_right)
qed

lemma c_str_appendI: "NUL \<notin> set d \<Longrightarrow> c_str (d @ NUL # r) = Some d"
  by (induction d) (auto simp: c_str_def)

lemma c_text_no_NUL: "NUL \<notin> set (c_text s)"
  by (auto simp: c_text_def dest: set_takeWhileD)


lemma strncat_buf_fits:
  assumes d: "c_str buf = Some d"
    and fit: "length d + length s + 1 \<le> length buf"
    and n: "length s \<le> n"
    and s: "NUL \<notin> set s"
  shows "\<exists>buf'. strncat_buf buf s n = Inr buf' \<and> length buf' = length buf \<and>
           c_str buf' = Some (d @ s)"
proof -
  have k: "min (length s) n = length s" using n by simp
  let ?b = "d @ s @ [NUL] @ drop (length d + length s + 1) buf"
  have run: "strncat_buf buf s n = Inr ?b"
    using d fit by (simp add: strncat_buf_def k)
  have "NUL \<notin> set (d @ s)" using c_str_SomeD(1) [OF d] s by simp
  then have "c_str ((d @ s) @ NUL # drop (length d + length s + 1) buf) = Some (d @ s)"
    by (rule c_str_appendI)
  then have cs: "c_str ?b = Some (d @ s)" by simp
  have len: "length ?b = length buf" using fit by simp
  show ?thesis using run cs len by blast
qed


section \<open>Allocation\<close>

lemma next_alloc_frame:
  assumes "next_alloc h = (b, h1)"
  shows "strs h1 = strs h" "opers h1 = opers h" "arrays h1 = arrays h" "insts h1 = insts h"
    "fresh h1 = fresh h"
  using assms by (auto simp: next_alloc_def split: list.splits)

lemma new_str_Some:
  assumes "new_str buf h = (Some a, h')"
  shows "a = fresh h" "strs h' = (strs h)(a \<mapsto> buf)" "opers h' = opers h"
    "arrays h' = arrays h" "insts h' = insts h" "fresh h' = Suc a"
  using assms next_alloc_frame [of h]
  by (auto simp: new_str_def split: prod.splits bool.splits)

lemma new_str_None:
  assumes "new_str buf h = (None, h')"
  shows "strs h' = strs h" "opers h' = opers h"
    "arrays h' = arrays h" "insts h' = insts h" "fresh h' = fresh h"
  using assms next_alloc_frame [of h]
  by (auto simp: new_str_def split: prod.splits bool.splits)

lemma calloc_op_Some:
  assumes "calloc_op h = (Some a, h')"
  shows "a = fresh h" "opers h' = (opers h)(a \<mapsto> op_zero)" "strs h' = strs h"
    "arrays h' = arrays h" "insts h' = insts h" "fresh h' = Suc a"
  using assms next_alloc_frame [of h]
  by (auto simp: calloc_op_def split: prod.splits bool.splits)

lemma calloc_insn_Some:
  assumes "calloc_insn h = (Some a, h')"
  shows "a = fresh h" "insts h' = (insts h)(a \<mapsto> insn_zero)" "strs h' = strs h"
    "arrays h' = arrays h" "opers h' = opers h" "fresh h' = Suc a"
  using assms next_alloc_frame [of h]
  by (auto simp: calloc_insn_def split: prod.splits bool.splits)

lemma calloc_array_Some:
  assumes "calloc_array n h = (Some a, h')"
  shows "a = fresh h" "arrays h' = (arrays h)(a \<mapsto> replicate n None)" "strs h' = strs h"
    "insts h' = insts h" "opers h' = opers h" "fresh h' = Suc a"
  using assms next_alloc_frame [of h]
  by (auto simp: calloc_array_def split: prod.splits bool.splits)

lemma op_alloc_fixed_Some:
  assumes "opdis_op_alloc_fixed osz h = (Some q, h')"
  shows "q = fresh h"
    "opers h' = (opers h)(q \<mapsto> op_zero\<lparr>op_fixed_size := 1, op_ascii_sz := of_nat osz,
                                         op_ascii := Some (Suc q)\<rparr>)"
    "strs h' = (strs h)(Suc q \<mapsto> replicate osz NUL)"
    "arrays h' = arrays h" "insts h' = insts h" "fresh h' = Suc (Suc q)"
proof -
  from assms obtain h1 where a1: "calloc_op h = (Some q, h1)"
    by (auto simp: opdis_op_alloc_fixed_def opdis_op_alloc_def Let_def
        split: prod.splits option.splits)
  let ?h2 = "upd_op q (\<lambda>x. x\<lparr>op_fixed_size := 1, op_ascii_sz := of_nat osz\<rparr>) h1"
  from assms a1 obtain b h3 where a2: "new_str (replicate osz NUL) ?h2 = (Some b, h3)"
    and h': "h' = upd_op q (\<lambda>x. x\<lparr>op_ascii := Some b\<rparr>) h3"
    by (auto simp: opdis_op_alloc_fixed_def opdis_op_alloc_def calloc_str_def Let_def
        split: prod.splits option.splits)
  note c = calloc_op_Some [OF a1]
  note s = new_str_Some [OF a2]
  show "q = fresh h" by (rule c(1))
  have b: "b = Suc q" using s(1) c(6) by simp
  show "opers h' = (opers h)(q \<mapsto> op_zero\<lparr>op_fixed_size := 1, op_ascii_sz := of_nat osz,
                                         op_ascii := Some (Suc q)\<rparr>)"
    by (simp add: h' s c b)
  show "strs h' = (strs h)(Suc q \<mapsto> replicate osz NUL)" by (simp add: h' s c b)
  show "arrays h' = arrays h" by (simp add: h' s c)
  show "insts h' = insts h" by (simp add: h' s c)
  show "fresh h' = Suc (Suc q)" by (simp add: h' s c b)
qed


lemma placed_fixed_operand_at: "placed h osz q \<Longrightarrow> fixed_operand_at h osz q"
  by (auto simp: placed_def fixed_operand_at_def op_at_def)

lemma placed_mono:
  assumes "placed h osz q" and "fresh h \<le> fresh h'"
    and "\<forall>b<fresh h. strs h' b = strs h b \<and> opers h' b = opers h b"
  shows "placed h' osz q"
  using assms by (auto simp: placed_def)

lemma write_slot_Inr:
  assumes "write_slot (Some a) i v h = Inr h'" and "arrays h a = Some xs"
  shows "i < length xs" "arrays h' = (arrays h)(a \<mapsto> xs[i := v])" "strs h' = strs h"
    "opers h' = opers h" "insts h' = insts h" "fresh h' = fresh h"
  using assms by (auto simp: write_slot_def split: if_splits)

lemma alloc_fixed_ops_inv:
  assumes "alloc_fixed_ops p osz n i h = Inr (True, h')"
    and "insts h p = Some I" and "operands I = Some a"
    and "arrays h a = Some xs" and "length xs = n"
  shows "insts h' p = Some (I\<lparr>alloc_operands := alloc_operands I + (n - i)\<rparr>) \<and>
         (\<exists>ys. arrays h' a = Some ys \<and> length ys = n \<and> (\<forall>j<i. ys ! j = xs ! j) \<and>
               (\<forall>j. i \<le> j \<and> j < n \<longrightarrow> placed h' osz (ys ! j))) \<and>
         (\<forall>b<fresh h. strs h' b = strs h b \<and> opers h' b = opers h b) \<and>
         fresh h \<le> fresh h'"
  using assms
proof (induction p osz n i h arbitrary: I xs rule: alloc_fixed_ops.induct)
  case (1 p osz n i h)
  show ?case
  proof (cases "i < n")
    case False
    then have "h' = h" using "1.prems"(1) by (simp add: alloc_fixed_ops.simps [of p osz n i h])
    then show ?thesis using False "1.prems"(2-5) by auto
  next
    case True
    from "1.prems"(1) True obtain q h1 where a: "opdis_op_alloc_fixed osz h = (Some q, h1)"
      by (auto simp: alloc_fixed_ops.simps [of p osz n i h] split: prod.splits option.splits sum.splits)
    note f = op_alloc_fixed_Some [OF a]
    have I1: "insts h1 p = Some I" using "1.prems"(2) f(5) by simp
    have x1: "arrays h1 a = Some xs" using "1.prems"(4) f(4) by simp
    from "1.prems"(1) True a I1 "1.prems"(3) obtain h2 where
      w: "write_slot (Some a) i (Some q) h1 = Inr h2"
      by (auto simp: alloc_fixed_ops.simps [of p osz n i h] Let_def split: sum.splits if_splits)
    note g = write_slot_Inr [OF w x1]
    let ?h3 = "upd_insn p (\<lambda>J. J\<lparr>alloc_operands := Suc (alloc_operands J)\<rparr>) h2"
    from "1.prems"(1) True a I1 "1.prems"(3) w have
      no: "\<not> (2::nat) ^ 31 \<le> Suc i" and rec: "alloc_fixed_ops p osz n (Suc i) ?h3 = Inr (True, h')"
      by (auto simp: alloc_fixed_ops.simps [of p osz n i h] Let_def split: if_splits)
    let ?I3 = "I\<lparr>alloc_operands := Suc (alloc_operands I)\<rparr>"
    have I3: "insts ?h3 p = Some ?I3" using I1 g(5) by simp
    have o3: "operands ?I3 = Some a" using "1.prems"(3) by simp
    have x3: "arrays ?h3 a = Some (xs[i := Some q])" using g(2) by simp
    have l3: "length (xs[i := Some q]) = n" using "1.prems"(5) by simp
    have ih: "insts h' p = Some (?I3\<lparr>alloc_operands := alloc_operands ?I3 + (n - Suc i)\<rparr>) \<and>
         (\<exists>ys. arrays h' a = Some ys \<and> length ys = n \<and> (\<forall>j<Suc i. ys ! j = xs[i := Some q] ! j) \<and>
               (\<forall>j. Suc i \<le> j \<and> j < n \<longrightarrow> placed h' osz (ys ! j))) \<and>
         (\<forall>b<fresh ?h3. strs h' b = strs ?h3 b \<and> opers h' b = opers ?h3 b) \<and>
         fresh ?h3 \<le> fresh h'"
    proof -
      have w': "write_slot (operands I) i (Some q) h1 = Inr h2" using w "1.prems"(3) by simp
      show ?thesis
        by (rule "1.IH" [OF True a [symmetric] refl I1 w' refl no rec I3 o3 x3 l3])
    qed
    then obtain ys where ys: "arrays h' a = Some ys" "length ys = n"
        "\<forall>j<Suc i. ys ! j = xs[i := Some q] ! j"
        "\<forall>j. Suc i \<le> j \<and> j < n \<longrightarrow> placed h' osz (ys ! j)"
      and ins: "insts h' p = Some (?I3\<lparr>alloc_operands := alloc_operands ?I3 + (n - Suc i)\<rparr>)"
      and fr: "\<forall>b<fresh ?h3. strs h' b = strs ?h3 b \<and> opers h' b = opers ?h3 b"
      and mono: "fresh ?h3 \<le> fresh h'"
      by blast
    have fr3: "fresh ?h3 = Suc (Suc (fresh h))" using f(1,6) g(6) by simp
    have pl3: "placed ?h3 osz (Some q)"
      using f g by (simp add: placed_def)
    have plq: "placed h' osz (Some q)" by (rule placed_mono [OF pl3 mono fr])
    have yi: "ys ! i = Some q" using ys(3) True "1.prems"(5) by simp
    have c1: "insts h' p = Some (I\<lparr>alloc_operands := alloc_operands I + (n - i)\<rparr>)"
      using ins True by (simp add: Suc_diff_Suc)
    have c2: "\<forall>j<i. ys ! j = xs ! j" using ys(3) by simp
    have c3: "\<forall>j. i \<le> j \<and> j < n \<longrightarrow> placed h' osz (ys ! j)"
    proof (intro allI impI)
      fix j assume j: "i \<le> j \<and> j < n"
      show "placed h' osz (ys ! j)"
      proof (cases "j = i")
        case True
        then show ?thesis using plq yi by simp
      next
        case False
        then show ?thesis using j ys(4) by simp
      qed
    qed
    have c4: "\<forall>b<fresh h. strs h' b = strs h b \<and> opers h' b = opers h b"
    proof (intro allI impI)
      fix b assume b: "b < fresh h"
      then have "strs h' b = strs ?h3 b \<and> opers h' b = opers ?h3 b" using fr fr3 by simp
      moreover have "strs ?h3 b = strs h b" using b f(1,3) g(3) by simp
      moreover have "opers ?h3 b = opers h b" using b f(1,2) g(4) by simp
      ultimately show "strs h' b = strs h b \<and> opers h' b = opers h b" by simp
    qed
    have c5: "fresh h \<le> fresh h'" using mono fr3 by simp
    show ?thesis using c1 c2 c3 c4 c5 ys(1,2) by blast
  qed
qed


lemma insn_alloc_Some:
  assumes "opdis_insn_alloc n h = (Some p, h1)"
  shows "p = fresh h \<and> strs h1 = strs h \<and> opers h1 = opers h \<and>
    insts h1 = (insts h)(p \<mapsto> insn_zero\<lparr>operands := (if n = 0 then None else Some (Suc p)),
                                         alloc_operands := n\<rparr>) \<and>
    arrays h1 = (if n = 0 then arrays h else (arrays h)(Suc p \<mapsto> replicate n None)) \<and>
    fresh h1 = (if n = 0 then Suc p else Suc (Suc p))"
proof -
  from assms obtain ha where a: "calloc_insn h = (Some p, ha)"
    by (auto simp: opdis_insn_alloc_def split: prod.splits option.splits if_splits)
  note c = calloc_insn_Some [OF a]
  have z: "insn_zero\<lparr>operands := None, alloc_operands := 0\<rparr> = insn_zero"
    by (simp add: insn_zero_def)
  show ?thesis
  proof (cases "n = 0")
    case True
    then have "h1 = ha" using assms a by (simp add: opdis_insn_alloc_def)
    then show ?thesis using True c z by simp
  next
    case False
    from assms a False obtain b hb where b: "calloc_array n ha = (Some b, hb)"
      and h1: "h1 = upd_insn p (\<lambda>I. I\<lparr>operands := Some b, alloc_operands := n\<rparr>) hb"
      by (auto simp: opdis_insn_alloc_def split: prod.splits option.splits)
    note d = calloc_array_Some [OF b]
    have "b = Suc p" using d(1) c(6) by simp
    then show ?thesis using False c d by (simp add: h1)
  qed
qed

lemma alloc_fixed_Some:
  assumes "opdis_insn_alloc_fixed asz msz n osz h = Inr (Some p, h')"
  shows "\<exists>I a1 a2 a3.
      insts h' p = Some I \<and> fixed_size I = 1 \<and> ascii_sz I = of_nat asz \<and>
      mnemonic_sz I = of_nat msz \<and> num_operands I = 0 \<and>
      ascii I = Some a1 \<and> prefixes I = Some a2 \<and> mnemonic I = Some a3 \<and>
      strs h' a1 = Some (replicate asz NUL) \<and>
      strs h' a2 = Some (replicate (PREFIX_SIZE msz) NUL) \<and>
      strs h' a3 = Some (replicate msz NUL) \<and>
      a1 \<noteq> a2 \<and> a1 \<noteq> a3 \<and> a2 \<noteq> a3 \<and>
      (case comment I of
         None \<Rightarrow> True
       | Some a4 \<Rightarrow> strs h' a4 = Some (replicate asz NUL) \<and> a4 \<noteq> a1 \<and> a4 \<noteq> a2 \<and> a4 \<noteq> a3) \<and>
      length (slots_at h' (operands I)) = n \<and>
      (\<forall>j<n. placed h' osz (slots_at h' (operands I) ! j))"
proof -
  from assms obtain h1 where A: "opdis_insn_alloc n h = (Some p, h1)"
    by (auto simp: opdis_insn_alloc_fixed_def Let_def
        split: prod.splits option.splits if_splits sum.splits bool.splits)
  note a = insn_alloc_Some [OF A]
  obtain pa h2 where B1: "new_str (replicate asz NUL) h1 = (pa, h2)" by (cases "new_str (replicate asz NUL) h1")
  obtain pp h3 where B2: "new_str (replicate (PREFIX_SIZE msz) NUL) h2 = (pp, h3)"
    by (cases "new_str (replicate (PREFIX_SIZE msz) NUL) h2")
  obtain pm h4 where B3: "new_str (replicate msz NUL) h3 = (pm, h4)" by (cases "new_str (replicate msz NUL) h3")
  obtain pc h5 where B4: "new_str (replicate asz NUL) h4 = (pc, h5)" by (cases "new_str (replicate asz NUL) h4")
  let ?h6 = "upd_insn p (\<lambda>I. I\<lparr>ascii := pa, prefixes := pp, mnemonic := pm, comment := pc\<rparr>) h5"
  from assms A B1 B2 B3 B4 obtain a1 a2 a3 h7 where
    ps: "pa = Some a1" "pp = Some a2" "pm = Some a3"
    and loop: "alloc_fixed_ops p osz n 0 ?h6 = Inr (True, h7)"
    and h': "h' = upd_insn p (\<lambda>I. I\<lparr>fixed_size := 1, ascii_sz := of_nat asz,
                                          mnemonic_sz := of_nat msz\<rparr>) h7"
    by (auto simp: opdis_insn_alloc_fixed_def calloc_str_def Let_def
        split: if_splits sum.splits bool.splits)
  note b1 = new_str_Some [OF B1 [unfolded ps]]
  note b2 = new_str_Some [OF B2 [unfolded ps]]
  note b3 = new_str_Some [OF B3 [unfolded ps]]
  let ?I6 = "insn_zero\<lparr>operands := (if n = 0 then None else Some (Suc p)), alloc_operands := n,
               ascii := Some a1, prefixes := Some a2, mnemonic := Some a3, comment := pc\<rparr>"
  have s5: "strs h5 a1 = Some (replicate asz NUL) \<and>
            strs h5 a2 = Some (replicate (PREFIX_SIZE msz) NUL) \<and>
            strs h5 a3 = Some (replicate msz NUL) \<and>
            a1 < a2 \<and> a2 < a3 \<and> a3 < fresh h5 \<and>
            (case pc of None \<Rightarrow> True
             | Some a4 \<Rightarrow> strs h5 a4 = Some (replicate asz NUL) \<and> a3 < a4 \<and> a4 < fresh h5) \<and>
            insts h5 = insts h1 \<and> arrays h5 = arrays h1"
  proof (cases pc)
    case None
    note b4 = new_str_None [OF B4 [unfolded None]]
    show ?thesis using b1 b2 b3 b4 None by simp
  next
    case (Some a4)
    note b4 = new_str_Some [OF B4 [unfolded Some]]
    show ?thesis using b1 b2 b3 b4 Some by simp
  qed
  have I6: "insts ?h6 p = Some ?I6" using a s5 ps by simp
  have fr6: "fresh ?h6 = fresh h5" "strs ?h6 = strs h5" "arrays ?h6 = arrays h5" by simp_all
  have post: "insts h7 p = Some (?I6\<lparr>alloc_operands := alloc_operands ?I6 + n\<rparr>) \<and>
              length (slots_at h7 (operands ?I6)) = n \<and>
              (\<forall>j<n. placed h7 osz (slots_at h7 (operands ?I6) ! j)) \<and>
              (\<forall>b<fresh h5. strs h7 b = strs h5 b)"
  proof (cases "n = 0")
    case True
    then have h7: "h7 = ?h6" using loop by (simp add: alloc_fixed_ops.simps [of p osz 0 0])
    have e: "?I6\<lparr>alloc_operands := alloc_operands ?I6 + n\<rparr> = ?I6" using True by simp
    have i7: "insts h7 p = Some ?I6" using I6 by (simp only: h7)
    have "strs h7 = strs h5" by (simp add: h7)
    then show ?thesis using True i7 e by (simp add: slots_at_def)
  next
    case False
    have o6: "operands ?I6 = Some (Suc p)" using False by simp
    have x6: "arrays ?h6 (Suc p) = Some (replicate n None)" using a s5 False by simp
    have l6: "length (replicate n (None :: ptr)) = n" by simp
    from alloc_fixed_ops_inv [OF loop I6 o6 x6 l6]
    show ?thesis using False by (auto simp: slots_at_def)
  qed
  let ?I = "?I6\<lparr>alloc_operands := alloc_operands ?I6 + n, fixed_size := 1,
                ascii_sz := of_nat asz, mnemonic_sz := of_nat msz\<rparr>"
  have I': "insts h' p = Some ?I" using post by (simp add: h')
  have st: "strs h' = strs h7" "arrays h' = arrays h7" "opers h' = opers h7" "fresh h' = fresh h7"
    by (simp_all add: h')
  have sl: "slots_at h' (operands ?I) = slots_at h7 (operands ?I6)"
    by (simp add: slots_at_def st)
  have pl: "placed h' osz q = placed h7 osz q" for q by (simp add: placed_def st)
  have keep: "b < fresh h5 \<Longrightarrow> strs h' b = strs h5 b" for b using post st by simp
  have f1: "fixed_size ?I = 1" "ascii_sz ?I = of_nat asz" "mnemonic_sz ?I = of_nat msz"
    "num_operands ?I = 0" "ascii ?I = Some a1" "prefixes ?I = Some a2" "mnemonic ?I = Some a3"
    by (simp_all add: insn_zero_def)
  have cm: "comment ?I = pc" by simp
  have f2: "strs h' a1 = Some (replicate asz NUL)"
    "strs h' a2 = Some (replicate (PREFIX_SIZE msz) NUL)"
    "strs h' a3 = Some (replicate msz NUL)"
    "a1 \<noteq> a2" "a1 \<noteq> a3" "a2 \<noteq> a3"
    using s5 keep by auto
  have f3: "(case comment ?I of
         None \<Rightarrow> True
       | Some a4 \<Rightarrow> strs h' a4 = Some (replicate asz NUL) \<and> a4 \<noteq> a1 \<and> a4 \<noteq> a2 \<and> a4 \<noteq> a3)"
    unfolding cm using s5 keep by (cases pc) auto
  have f4: "length (slots_at h' (operands ?I)) = n" using post unfolding sl by blast
  have f5: "\<forall>j<n. placed h' osz (slots_at h' (operands ?I) ! j)" using post unfolding sl pl by blast
  from I' f1 f2 f3 f4 f5 show ?thesis by blast
qed


section \<open>The result of \<open>opdis_insn_alloc_fixed\<close>\<close>

text \<open>
  C2. The specification gives a fixed-size instruction for \<open>n\<close> operands the counts
  \<open>num_operands = n = alloc_operands\<close>. Allocated for two operands, the instruction
  has \<open>num_operands = 0\<close> (no operand is in use yet) and \<open>alloc_operands = 4\<close>.
\<close>

theorem alloc_fixed_counts_counterexample:
  "and_then (opdis_insn_alloc_fixed 8 4 2 8 (heap_init [])) (\<lambda>(p, h).
     Inr (map_option (\<lambda>I. (num_operands I, alloc_operands I)) (insn_at h p)))
   = Inr (Some (0, 4))"
  by (simp add: model_defs)

text \<open>
  C2, amended. A successful \<open>opdis_insn_alloc_fixed\<close> for \<open>n\<close> operands gives an
  instruction with \<open>fixed_size = 1\<close> and \<open>num_operands = 0\<close> whose operand array has
  \<open>n\<close> slots, each holding a fixed-size operand with a zeroed \<open>ascii\<close> buffer of
  the capacity asked for.
\<close>

theorem alloc_fixed_populated:
  assumes "opdis_insn_alloc_fixed asz msz n osz h = Inr (Some p, h')"
  shows "\<exists>I. insn_at h' (Some p) = Some I \<and> fixed_size I = 1 \<and> num_operands I = 0 \<and>
             length (slots_at h' (operands I)) = n \<and>
             (\<forall>j<n. fixed_operand_at h' osz (slots_at h' (operands I) ! j))"
proof -
  from alloc_fixed_Some [OF assms] obtain I where
    I: "insts h' p = Some I" "fixed_size I = 1" "num_operands I = 0"
      "length (slots_at h' (operands I)) = n"
      "\<forall>j<n. placed h' osz (slots_at h' (operands I) ! j)"
    by blast
  have "\<forall>j<n. fixed_operand_at h' osz (slots_at h' (operands I) ! j)"
    using I(5) placed_fixed_operand_at by blast
  then show ?thesis using I by (simp add: insn_at_def)
qed

text \<open>The instruction \<open>fixed_example\<close>, allocated for two operands of capacity 8.\<close>

theorem alloc_fixed_populated_witness:
  "opdis_insn_alloc_fixed 8 4 2 8 (heap_init []) = Inr (Some 0, fixed_example) \<and>
   map_option (\<lambda>I. (fixed_size I, num_operands I,
                      map (fixed_operand_at fixed_example 8) (slots_at fixed_example (operands I))))
     (insn_at fixed_example (Some 0)) = Some (1, 0, [True, True])"
proof -
  have run: "opdis_insn_alloc_fixed 8 4 2 8 (heap_init []) = Inr (Some 0, fixed_example)"
    by (simp add: fixed_example_def model_defs)
  from alloc_fixed_populated [OF run] obtain I where
    I: "insn_at fixed_example (Some 0) = Some I" "fixed_size I = 1" "num_operands I = 0"
      "length (slots_at fixed_example (operands I)) = 2"
      "\<forall>j<2. fixed_operand_at fixed_example 8 (slots_at fixed_example (operands I) ! j)"
    by blast
  obtain x y where xy: "slots_at fixed_example (operands I) = [x, y]"
    using I(4) by (metis (no_types) length_0_conv length_Suc_conv numeral_2_eq_2)
  have "fixed_operand_at fixed_example 8 x" "fixed_operand_at fixed_example 8 y"
    using I(5) xy by (auto simp: nth_Cons' dest: spec [of _ 0] spec [of _ 1])
  then show ?thesis using run I xy by simp
qed


section \<open>Capacities in 8-bit fields\<close>

lemma unat_of_nat8: "unat (of_nat c :: 8 word) = c mod 256"
  by (simp add: unat_of_nat)

lemma fixed_buf_ok_calloc: "1 \<le> c mod 256 \<Longrightarrow> fixed_buf_ok (replicate c NUL) (of_nat c)"
proof -
  assume "1 \<le> c mod 256"
  moreover have "c mod 256 \<le> c" by simp
  ultimately show ?thesis by (simp add: fixed_buf_ok_def unat_of_nat8)
qed

lemma strncpy_fixed:
  assumes ok: "fixed_buf_ok buf sz" and t: "NUL \<notin> set t"
  shows "\<exists>buf'. strncpy_buf buf t (sz_minus_1 sz) = Inr buf' \<and> length buf' = length buf \<and>
           fixed_buf_ok buf' sz \<and> c_str buf' = Some (take (unat sz - 1) t)"
proof -
  let ?n = "unat sz - 1"
  from ok have sz: "1 \<le> unat sz" and le: "unat sz \<le> length buf"
    and tail: "drop ?n buf = replicate (length buf - ?n) NUL"
    by (simp_all add: fixed_buf_ok_def)
  have nz: "sz \<noteq> 0" using sz by (auto simp: unat_gt_0 [symmetric])
  have n: "sz_minus_1 sz = ?n" by (rule sz_minus_1_pos [OF nz])
  have nle: "?n \<le> length buf" and nlt: "?n < length buf" using sz le by simp_all
  let ?b = "take ?n t @ replicate (?n - length t) NUL @ drop ?n buf"
  have run: "strncpy_buf buf t (sz_minus_1 sz) = Inr ?b" using nle by (simp add: strncpy_buf_def n)
  have pre: "length (take ?n t @ replicate (?n - length t) NUL) = ?n" by simp
  have len: "length ?b = length buf" using nle by simp
  have "drop ?n ?b = drop ?n buf"
    using pre by (metis append.assoc append_eq_conv_conj)
  then have ok': "fixed_buf_ok ?b sz" using sz le tail len by (simp only: fixed_buf_ok_def)
  obtain k where k: "length buf - ?n = Suc k" using nlt by (metis Suc_diff_Suc)
  have "?b = take ?n t @ NUL # (replicate (?n - length t) NUL @ replicate k NUL)"
    using tail k by (simp add: replicate_app_Cons_same)
  moreover have "NUL \<notin> set (take ?n t)" using t by (auto dest: in_set_takeD)
  ultimately have "c_str ?b = Some (take ?n t)" using c_str_appendI by metis
  with run len ok' show ?thesis by blast
qed


lemma upd_str_strncpy_fixed:
  assumes ok: "fixed_field_ok h q sz c"
  shows "\<exists>h2. upd_str q (\<lambda>buf. strncpy_buf buf (c_text s) (sz_minus_1 sz)) h = Inr h2 \<and>
           insts h2 = insts h \<and> opers h2 = opers h \<and> arrays h2 = arrays h \<and>
           fixed_field_ok h2 q sz c \<and>
           str_at h2 q = Some (take (c mod 256 - 1) (c_text s)) \<and> cap_at h2 q = Some c"
proof -
  from ok obtain a buf where q: "q = Some a" and buf: "strs h a = Some buf"
    and len: "length buf = c" and sz: "sz = of_nat c" and b: "fixed_buf_ok buf sz"
    by (auto simp: fixed_field_ok_def split: option.splits)
  from strncpy_fixed [OF b c_text_no_NUL, of s] obtain buf' where
    run: "strncpy_buf buf (c_text s) (sz_minus_1 sz) = Inr buf'" and l': "length buf' = length buf"
    and b': "fixed_buf_ok buf' sz" and cs: "c_str buf' = Some (take (unat sz - 1) (c_text s))"
    by blast
  have u: "unat sz = c mod 256" using sz by (simp add: unat_of_nat8)
  let ?h2 = "h\<lparr>strs := (strs h)(a \<mapsto> buf')\<rparr>"
  have "upd_str q (\<lambda>buf. strncpy_buf buf (c_text s) (sz_minus_1 sz)) h = Inr ?h2"
    using q buf run by (simp add: upd_str_def)
  moreover have "fixed_field_ok ?h2 q sz c" using q l' len sz b' by (simp add: fixed_field_ok_def)
  moreover have "str_at ?h2 q = Some (take (c mod 256 - 1) (c_text s))"
    using q cs u by (simp add: str_at_def read_str_def)
  moreover have "cap_at ?h2 q = Some c" using q l' len by (simp add: cap_at_def)
  ultimately show ?thesis by auto
qed

text \<open>
  C9. The specification lets every capacity \<open>c \<ge> 256\<close> truncate the string to
  \<open>(c mod 256) - 1\<close> characters. For \<open>c = 256\<close> the recorded capacity is 0, the
  count given to \<open>strncpy\<close> is \<open>0 - 1 = 2^64 - 1\<close>, and
  \<open>opdis_insn_set_ascii\<close> overruns the 256-byte buffer instead of truncating.
\<close>

theorem set_ascii_capacity_256_counterexample:
  "and_then (opdis_insn_alloc_fixed 256 4 0 0 (heap_init [])) (\<lambda>(p, h).
     Inr (map_option (\<lambda>I. (unat (ascii_sz I), cap_at h (ascii I))) (insn_at h p),
          opdis_insn_set_ascii p (Some ''x'') h))
   = Inr (Some (0, Some 256), Inl Overrun)"
  by (simp add: model_defs sz_minus_1_256)

text \<open>
  C9, amended. The fixed-size allocators record the capacity \<open>c\<close> they are given as
  \<open>c mod 256\<close> (in \<open>ascii_sz\<close> and \<open>mnemonic_sz\<close> of the instruction, \<open>ascii_sz\<close>
  of the operand), while the buffer has \<open>c\<close> bytes. When \<open>c mod 256\<close> is not 0, the
  buffer and its recorded capacity satisfy \<open>fixed_field_ok\<close>; and in every state
  where they do, the fixed-size branch of \<open>opdis_insn_set_ascii\<close>,
  \<open>opdis_insn_set_mnemonic\<close> and \<open>opdis_op_set_ascii\<close> succeeds, stores the first
  \<open>(c mod 256) - 1\<close> characters of the text, keeps the buffer at \<open>c\<close> bytes, and
  keeps \<open>fixed_field_ok\<close>, so the same holds for every later call.
\<close>

theorem fixed_capacity_mod_256:
  "(opdis_insn_alloc_fixed asz msz n osz h = Inr (Some p, h') \<longrightarrow>
      (\<exists>I. insn_at h' (Some p) = Some I \<and> fixed_size I = 1 \<and>
           unat (ascii_sz I) = asz mod 256 \<and> cap_at h' (ascii I) = Some asz \<and>
           unat (mnemonic_sz I) = msz mod 256 \<and> cap_at h' (mnemonic I) = Some msz \<and>
           (1 \<le> asz mod 256 \<longrightarrow> fixed_field_ok h' (ascii I) (ascii_sz I) asz) \<and>
           (1 \<le> msz mod 256 \<longrightarrow> fixed_field_ok h' (mnemonic I) (mnemonic_sz I) msz))) \<and>
   (opdis_op_alloc_fixed osz h = (Some q, h') \<longrightarrow>
      (\<exists>x. op_at h' (Some q) = Some x \<and> op_fixed_size x = 1 \<and>
           unat (op_ascii_sz x) = osz mod 256 \<and> cap_at h' (op_ascii x) = Some osz \<and>
           (1 \<le> osz mod 256 \<longrightarrow> fixed_field_ok h' (op_ascii x) (op_ascii_sz x) osz))) \<and>
   (insts h p = Some I \<and> fixed_size I \<noteq> 0 \<and> fixed_field_ok h (ascii I) (ascii_sz I) c \<longrightarrow>
      (\<exists>h2. opdis_insn_set_ascii (Some p) (Some s) h = Inr h2 \<and> insts h2 = insts h \<and>
            fixed_field_ok h2 (ascii I) (ascii_sz I) c \<and>
            str_at h2 (ascii I) = Some (take (c mod 256 - 1) (c_text s)) \<and>
            cap_at h2 (ascii I) = Some c)) \<and>
   (insts h p = Some I \<and> fixed_size I \<noteq> 0 \<and> fixed_field_ok h (mnemonic I) (mnemonic_sz I) c \<longrightarrow>
      (\<exists>h2. opdis_insn_set_mnemonic (Some p) (Some s) h = Inr h2 \<and> insts h2 = insts h \<and>
            fixed_field_ok h2 (mnemonic I) (mnemonic_sz I) c \<and>
            str_at h2 (mnemonic I) = Some (take (c mod 256 - 1) (c_text s)) \<and>
            cap_at h2 (mnemonic I) = Some c)) \<and>
   (opers h q = Some x \<and> op_fixed_size x \<noteq> 0 \<and> fixed_field_ok h (op_ascii x) (op_ascii_sz x) c \<longrightarrow>
      (\<exists>h2. opdis_op_set_ascii (Some q) (Some s) h = Inr h2 \<and> opers h2 = opers h \<and>
            fixed_field_ok h2 (op_ascii x) (op_ascii_sz x) c \<and>
            str_at h2 (op_ascii x) = Some (take (c mod 256 - 1) (c_text s)) \<and>
            cap_at h2 (op_ascii x) = Some c))"
proof (intro conjI impI)
  assume run: "opdis_insn_alloc_fixed asz msz n osz h = Inr (Some p, h')"
  from alloc_fixed_Some [OF run] obtain I a1 a3 where
    I: "insts h' p = Some I" "fixed_size I = 1" "ascii_sz I = of_nat asz"
      "mnemonic_sz I = of_nat msz" "ascii I = Some a1" "mnemonic I = Some a3"
      "strs h' a1 = Some (replicate asz NUL)" "strs h' a3 = Some (replicate msz NUL)"
    by blast
  have "insn_at h' (Some p) = Some I" using I(1) by (simp add: insn_at_def)
  moreover have "unat (ascii_sz I) = asz mod 256" "unat (mnemonic_sz I) = msz mod 256"
    using I(3,4) by (simp_all add: unat_of_nat8)
  moreover have "cap_at h' (ascii I) = Some asz" "cap_at h' (mnemonic I) = Some msz"
    using I(5-8) by (simp_all add: cap_at_def)
  moreover have "1 \<le> asz mod 256 \<longrightarrow> fixed_field_ok h' (ascii I) (ascii_sz I) asz"
    using I(3,5,7) fixed_buf_ok_calloc [of asz] by (simp add: fixed_field_ok_def)
  moreover have "1 \<le> msz mod 256 \<longrightarrow> fixed_field_ok h' (mnemonic I) (mnemonic_sz I) msz"
    using I(4,6,8) fixed_buf_ok_calloc [of msz] by (simp add: fixed_field_ok_def)
  ultimately show "\<exists>I. insn_at h' (Some p) = Some I \<and> fixed_size I = 1 \<and>
           unat (ascii_sz I) = asz mod 256 \<and> cap_at h' (ascii I) = Some asz \<and>
           unat (mnemonic_sz I) = msz mod 256 \<and> cap_at h' (mnemonic I) = Some msz \<and>
           (1 \<le> asz mod 256 \<longrightarrow> fixed_field_ok h' (ascii I) (ascii_sz I) asz) \<and>
           (1 \<le> msz mod 256 \<longrightarrow> fixed_field_ok h' (mnemonic I) (mnemonic_sz I) msz)"
    using I(2) by blast
next
  assume run: "opdis_op_alloc_fixed osz h = (Some q, h')"
  note f = op_alloc_fixed_Some [OF run]
  let ?x = "op_zero\<lparr>op_fixed_size := 1, op_ascii_sz := of_nat osz, op_ascii := Some (Suc q)\<rparr>"
  have "op_at h' (Some q) = Some ?x" using f(2) by (simp add: op_at_def)
  moreover have "op_fixed_size ?x = 1" by simp
  moreover have "unat (op_ascii_sz ?x) = osz mod 256" by (simp add: unat_of_nat8)
  moreover have "cap_at h' (op_ascii ?x) = Some osz" using f(3) by (simp add: cap_at_def)
  moreover have "1 \<le> osz mod 256 \<longrightarrow> fixed_field_ok h' (op_ascii ?x) (op_ascii_sz ?x) osz"
    using f(3) fixed_buf_ok_calloc [of osz] by (simp add: fixed_field_ok_def)
  ultimately show "\<exists>x. op_at h' (Some q) = Some x \<and> op_fixed_size x = 1 \<and>
           unat (op_ascii_sz x) = osz mod 256 \<and> cap_at h' (op_ascii x) = Some osz \<and>
           (1 \<le> osz mod 256 \<longrightarrow> fixed_field_ok h' (op_ascii x) (op_ascii_sz x) osz)"
    by blast
next
  assume a: "insts h p = Some I \<and> fixed_size I \<noteq> 0 \<and> fixed_field_ok h (ascii I) (ascii_sz I) c"
  then have run: "opdis_insn_set_ascii (Some p) (Some s) h =
      upd_str (ascii I) (\<lambda>buf. strncpy_buf buf (c_text s) (sz_minus_1 (ascii_sz I))) h"
    by (simp add: opdis_insn_set_ascii_def)
  from upd_str_strncpy_fixed [of h "ascii I" "ascii_sz I" c s] a
  show "\<exists>h2. opdis_insn_set_ascii (Some p) (Some s) h = Inr h2 \<and> insts h2 = insts h \<and>
            fixed_field_ok h2 (ascii I) (ascii_sz I) c \<and>
            str_at h2 (ascii I) = Some (take (c mod 256 - 1) (c_text s)) \<and>
            cap_at h2 (ascii I) = Some c"
    unfolding run by blast
next
  assume a: "insts h p = Some I \<and> fixed_size I \<noteq> 0 \<and> fixed_field_ok h (mnemonic I) (mnemonic_sz I) c"
  then have run: "opdis_insn_set_mnemonic (Some p) (Some s) h =
      upd_str (mnemonic I) (\<lambda>buf. strncpy_buf buf (c_text s) (sz_minus_1 (mnemonic_sz I))) h"
    by (simp add: opdis_insn_set_mnemonic_def)
  from upd_str_strncpy_fixed [of h "mnemonic I" "mnemonic_sz I" c s] a
  show "\<exists>h2. opdis_insn_set_mnemonic (Some p) (Some s) h = Inr h2 \<and> insts h2 = insts h \<and>
            fixed_field_ok h2 (mnemonic I) (mnemonic_sz I) c \<and>
            str_at h2 (mnemonic I) = Some (take (c mod 256 - 1) (c_text s)) \<and>
            cap_at h2 (mnemonic I) = Some c"
    unfolding run by blast
next
  assume a: "opers h q = Some x \<and> op_fixed_size x \<noteq> 0 \<and> fixed_field_ok h (op_ascii x) (op_ascii_sz x) c"
  then have run: "opdis_op_set_ascii (Some q) (Some s) h =
      upd_str (op_ascii x) (\<lambda>buf. strncpy_buf buf (c_text s) (sz_minus_1 (op_ascii_sz x))) h"
    by (simp add: opdis_op_set_ascii_def)
  from upd_str_strncpy_fixed [of h "op_ascii x" "op_ascii_sz x" c s] a
  show "\<exists>h2. opdis_op_set_ascii (Some q) (Some s) h = Inr h2 \<and> opers h2 = opers h \<and>
            fixed_field_ok h2 (op_ascii x) (op_ascii_sz x) c \<and>
            str_at h2 (op_ascii x) = Some (take (c mod 256 - 1) (c_text s)) \<and>
            cap_at h2 (op_ascii x) = Some c"
    unfolding run by blast
qed

text \<open>
  Capacity 260 is recorded as 4: \<open>opdis_insn_set_ascii\<close> stores \<open>hel\<close> of
  \<open>hello\<close> in a buffer of 260 bytes.
\<close>

theorem fixed_capacity_mod_256_witness:
  "opdis_insn_alloc_fixed 260 4 0 0 (heap_init []) = Inr (Some 0, wide_example) \<and>
   and_then (opdis_insn_set_ascii (Some 0) (Some ''hello'') wide_example) (\<lambda>h2.
     Inr (map_option (\<lambda>I. (unat (ascii_sz I), cap_at h2 (ascii I), str_at h2 (ascii I)))
            (insn_at h2 (Some 0))))
   = Inr (Some (4, Some 260, Some ''hel''))"
proof -
  have run: "opdis_insn_alloc_fixed 260 4 0 0 (heap_init []) = Inr (Some 0, wide_example)"
    by (simp add: wide_example_def model_defs)
  note t1 = fixed_capacity_mod_256 [where asz = 260 and msz = 4 and n = 0 and osz = 0
      and h = "heap_init []" and p = 0 and h' = wide_example, THEN conjunct1, rule_format, OF run]
  have m: "(1::nat) \<le> 260 mod 256" by simp
  from t1 m obtain I where
    I: "insn_at wide_example (Some 0) = Some I" "fixed_size I = 1"
      "unat (ascii_sz I) = 260 mod 256" "cap_at wide_example (ascii I) = Some 260"
      "fixed_field_ok wide_example (ascii I) (ascii_sz I) 260"
    by blast
  have I0: "insts wide_example 0 = Some I" using I(1) by (simp add: insn_at_def)
  have fx: "fixed_size I \<noteq> 0" using I(2) by simp
  note t3 = fixed_capacity_mod_256 [where h = wide_example and p = 0 and I = I and c = 260
      and s = "''hello''", THEN conjunct2, THEN conjunct2, THEN conjunct1, rule_format,
      OF conjI [OF I0 conjI [OF fx I(5)]]]
  from t3 obtain h2 where
    h2: "opdis_insn_set_ascii (Some 0) (Some ''hello'') wide_example = Inr h2"
      "insts h2 = insts wide_example"
      "str_at h2 (ascii I) = Some (take (260 mod 256 - 1) (c_text ''hello''))"
      "cap_at h2 (ascii I) = Some 260"
    by blast
  have "insn_at h2 (Some 0) = Some I" using h2(2) I0 by (simp add: insn_at_def)
  then show ?thesis using run h2 I(3) by (simp add: and_then_def c_text_def NUL_def)
qed

text \<open>
  C4. A fixed-size operand of capacity 256: the capacity recorded in the 8-bit field is
  0, the buffer holds 256 bytes, and \<open>opdis_op_set_ascii\<close> passes \<open>0 - 1\<close>,
  that is \<open>2^64 - 1\<close>, to \<open>strncpy\<close> as the count, which writes that many bytes:
  the call overruns the buffer.
\<close>

theorem op_set_ascii_capacity_256_overrun:
  "(case opdis_op_alloc_fixed 256 (heap_init []) of
      (op, h) \<Rightarrow>
        (map_option (\<lambda>x. (op_fixed_size x, op_ascii_sz x, cap_at h (op_ascii x))) (op_at h op),
         opdis_op_set_ascii op (Some ''x'') h))
   = (Some (1, 0, Some 256), Inl Overrun)"
  by (simp add: model_defs sz_minus_1_256)

text \<open>
  Whatever the text, \<open>opdis_op_set_ascii\<close> on a fixed-size operand whose recorded
  capacity is 0 overruns the buffer: the count is \<open>2^64 - 1\<close>, more than any buffer holds.
\<close>

lemma op_set_ascii_zero_capacity:
  assumes "opers h q = Some x" and "op_fixed_size x \<noteq> 0" and "op_ascii_sz x = 0"
    and "op_ascii x = Some a" and "strs h a = Some buf" and "length buf < 2 ^ 64 - 1"
  shows "opdis_op_set_ascii (Some q) (Some s) h = Inl Overrun"
  using assms
  by (simp add: opdis_op_set_ascii_def upd_str_def strncpy_buf_def sz_minus_1_zero)


section \<open>Adding operands\<close>

lemma add_operand_in_place:
  assumes I: "insts h p = Some I" and ok: "operands_ok h I"
    and lt: "num_operands I < alloc_operands I"
  shows "\<exists>h'. opdis_insn_add_operand (Some p) (Some q) h = Inr (True, h') \<and>
           insts h' p = Some (I\<lparr>num_operands := Suc (num_operands I)\<rparr>) \<and>
           slots_at h' (operands I) = (slots_at h (operands I))[num_operands I := Some q] \<and>
           opers h' = opers h \<and> strs h' = strs h \<and> alloc_plan h' = alloc_plan h \<and> fresh h' = fresh h \<and>
           operands_ok h' (I\<lparr>num_operands := Suc (num_operands I)\<rparr>)"
  using assms
  by (auto simp: opdis_insn_add_operand_def operands_ok_def write_slot_def slots_at_def
      split: option.splits)

lemma add_operand_grow:
  assumes I: "insts h p = Some I" and ok: "operands_ok h I"
    and eq: "num_operands I = alloc_operands I"
    and al: "fst (next_alloc h)"
  shows "\<exists>h'. opdis_insn_add_operand (Some p) (Some q) h = Inr (True, h') \<and>
           insts h' p = Some (I\<lparr>operands := Some (fresh h), alloc_operands := Suc (alloc_operands I),
                                 num_operands := Suc (num_operands I)\<rparr>) \<and>
           slots_at h' (Some (fresh h)) = slots_at h (operands I) @ [Some q] \<and>
           opers h' = opers h \<and> strs h' = strs h \<and>
           operands_ok h' (I\<lparr>operands := Some (fresh h), alloc_operands := Suc (alloc_operands I),
                                 num_operands := Suc (num_operands I)\<rparr>)"
proof -
  obtain h1 where n: "next_alloc h = (True, h1)" using al by (cases "next_alloc h") auto
  have fr: "arrays h1 = arrays h" "insts h1 = insts h" "opers h1 = opers h" "strs h1 = strs h"
    "fresh h1 = fresh h"
    using n by (auto simp: next_alloc_def split: list.splits)
  have n': "next_alloc (upd_insn p f h) = (True, upd_insn p f h1)" for f
    using n by (auto simp: next_alloc_def upd_insn_def split: list.splits)
  show ?thesis
  proof (cases "operands I")
    case None
    then have z: "alloc_operands I = 0" "num_operands I = 0" using ok eq by (auto simp: operands_ok_def)
    show ?thesis using I None z n' fr
      by (simp add: opdis_insn_add_operand_def realloc_array_def write_slot_def slots_at_def
          operands_ok_def upd_insn_def)
  next
    case (Some a)
    then obtain xs where xs: "arrays h a = Some xs" "length xs = alloc_operands I"
      using ok by (auto simp: operands_ok_def split: option.splits)
    show ?thesis using I Some xs eq n' fr
      by (simp add: opdis_insn_add_operand_def realloc_array_def write_slot_def slots_at_def
          operands_ok_def upd_insn_def list_update_append)
  qed
qed

lemma add_operand_fail:
  assumes I: "insts h p = Some I" and ok: "operands_ok h I"
    and eq: "num_operands I = alloc_operands I"
    and al: "\<not> fst (next_alloc h)"
  shows "\<exists>h'. opdis_insn_add_operand (Some p) (Some q) h = Inr (False, h') \<and>
           insts h' = insts h \<and> arrays h' = arrays h \<and> opers h' = opers h \<and> strs h' = strs h \<and>
           operands_ok h' I"
proof -
  obtain h1 where n: "next_alloc h = (False, h1)" using al by (cases "next_alloc h") auto
  have fr: "arrays h1 = arrays h" "insts h1 = insts h" "opers h1 = opers h" "strs h1 = strs h"
    using n by (auto simp: next_alloc_def split: list.splits)
  have n': "next_alloc (upd_insn p f h) = (False, upd_insn p f h1)" for f
    using n by (auto simp: next_alloc_def upd_insn_def split: list.splits)
  let ?h' = "upd_insn p (\<lambda>J. J\<lparr>alloc_operands := alloc_operands J - 1\<rparr>)
               (upd_insn p (\<lambda>J. J\<lparr>alloc_operands := Suc (alloc_operands J)\<rparr>) h1)"
  have arr: "operands I = None \<or> (\<exists>a xs. operands I = Some a \<and> arrays h a = Some xs)"
    using ok by (auto simp: operands_ok_def split: option.splits)
  have run: "opdis_insn_add_operand (Some p) (Some q) h = Inr (False, ?h')"
    using I eq n' arr
    by (auto simp: opdis_insn_add_operand_def realloc_array_def)
  have rec: "I\<lparr>alloc_operands := alloc_operands I\<rparr> = I" by simp
  have "(insts h)(p \<mapsto> I) = insts h" using I by (rule map_upd_triv)
  then have ins: "insts ?h' = insts h" using I by (simp add: fr rec)
  have rest: "arrays ?h' = arrays h" "opers ?h' = opers h" "strs ?h' = strs h"
    by (simp_all add: fr)
  have "operands_ok ?h' I" using ok by (auto simp: operands_ok_def fr split: option.splits)
  then show ?thesis using run ins rest by blast
qed

lemma add_operand_list_counts:
  assumes "insts h p = Some I" and "operands_ok h I" and "None \<notin> set ops"
  shows "\<exists>k h' I'. add_operand_list (Some p) ops h = Inr (k, h') \<and> insts h' p = Some I' \<and>
           operands_ok h' I' \<and> num_operands I' = num_operands I + k \<and> k \<le> length ops"
  using assms
proof (induction ops arbitrary: h I)
  case Nil
  then show ?case by simp
next
  case (Cons op ops)
  from Cons.prems(3) obtain q where q: "op = Some q" by (cases op) auto
  have nn: "None \<notin> set ops" using Cons.prems(3) by simp
  have "\<exists>ok h1 I1. opdis_insn_add_operand (Some p) (Some q) h = Inr (ok, h1) \<and>
          insts h1 p = Some I1 \<and> operands_ok h1 I1 \<and>
          num_operands I1 = num_operands I + (if ok then 1 else 0)"
  proof (cases "num_operands I < alloc_operands I")
    case True
    from add_operand_in_place [OF Cons.prems(1,2) True, of q] show ?thesis by fastforce
  next
    case False
    then have eq: "num_operands I = alloc_operands I"
      using Cons.prems(2) by (simp add: operands_ok_def)
    show ?thesis
    proof (cases "fst (next_alloc h)")
      case True
      from add_operand_grow [OF Cons.prems(1,2) eq True, of q] show ?thesis by fastforce
    next
      case False
      from add_operand_fail [OF Cons.prems(1,2) eq False, of q] show ?thesis
        using Cons.prems(1) by fastforce
    qed
  qed
  then obtain ok h1 I1 where step: "opdis_insn_add_operand (Some p) (Some q) h = Inr (ok, h1)"
      and I1: "insts h1 p = Some I1" and ok1: "operands_ok h1 I1"
      and n1: "num_operands I1 = num_operands I + (if ok then 1 else 0)"
    by blast
  from Cons.IH [OF I1 ok1 nn] obtain k h' I' where
    rest: "add_operand_list (Some p) ops h1 = Inr (k, h')" "insts h' p = Some I'"
      "operands_ok h' I'" "num_operands I' = num_operands I1 + k" "k \<le> length ops"
    by blast
  show ?case using q step rest n1 by simp
qed


text \<open>
  \<open>opdis_insn_add_operand\<close> on an instruction with a well-formed operand array.
  With a free slot, the pointer itself is stored in slot \<open>num_operands\<close> of the
  same array: no allocation request is made, \<open>operands\<close> and \<open>alloc_operands\<close> stay,
  no operand is created or changed, and the count goes up by one. Without a free slot
  the array is reallocated with one slot more, \<open>alloc_operands\<close> goes up by one, and
  the pointer is stored in the new last slot. When that reallocation fails the call
  reports failure, and the instruction and every array are as before. Over any
  sequence of calls with non-null operands, \<open>num_operands\<close> grows by the number of
  calls that succeeded.
\<close>

lemma add_operand_appends:
  assumes I: "insts h p = Some I" and ok: "operands_ok h I"
  shows
    "(num_operands I < alloc_operands I \<longrightarrow>
        (\<exists>h'. opdis_insn_add_operand (Some p) (Some q) h = Inr (True, h') \<and>
              insts h' p = Some (I\<lparr>num_operands := Suc (num_operands I)\<rparr>) \<and>
              slots_at h' (operands I) = (slots_at h (operands I))[num_operands I := Some q] \<and>
              opers h' = opers h \<and> alloc_plan h' = alloc_plan h \<and> fresh h' = fresh h)) \<and>
     (num_operands I = alloc_operands I \<and> fst (next_alloc h) \<longrightarrow>
        (\<exists>h'. opdis_insn_add_operand (Some p) (Some q) h = Inr (True, h') \<and>
              insts h' p = Some (I\<lparr>operands := Some (fresh h),
                                    alloc_operands := Suc (alloc_operands I),
                                    num_operands := Suc (num_operands I)\<rparr>) \<and>
              slots_at h' (Some (fresh h)) = slots_at h (operands I) @ [Some q] \<and>
              opers h' = opers h)) \<and>
     (num_operands I = alloc_operands I \<and> \<not> fst (next_alloc h) \<longrightarrow>
        (\<exists>h'. opdis_insn_add_operand (Some p) (Some q) h = Inr (False, h') \<and>
              insts h' = insts h \<and> arrays h' = arrays h \<and> opers h' = opers h)) \<and>
     (None \<notin> set ops \<longrightarrow>
        (\<exists>k h' I'. add_operand_list (Some p) ops h = Inr (k, h') \<and> insts h' p = Some I' \<and>
              num_operands I' = num_operands I + k))"
proof (intro conjI impI)
  assume "num_operands I < alloc_operands I"
  from add_operand_in_place [OF I ok this, of q]
  show "\<exists>h'. opdis_insn_add_operand (Some p) (Some q) h = Inr (True, h') \<and>
              insts h' p = Some (I\<lparr>num_operands := Suc (num_operands I)\<rparr>) \<and>
              slots_at h' (operands I) = (slots_at h (operands I))[num_operands I := Some q] \<and>
              opers h' = opers h \<and> alloc_plan h' = alloc_plan h \<and> fresh h' = fresh h"
    by blast
next
  assume a: "num_operands I = alloc_operands I \<and> fst (next_alloc h)"
  from add_operand_grow [OF I ok conjunct1 [OF a] conjunct2 [OF a], of q]
  show "\<exists>h'. opdis_insn_add_operand (Some p) (Some q) h = Inr (True, h') \<and>
              insts h' p = Some (I\<lparr>operands := Some (fresh h),
                                    alloc_operands := Suc (alloc_operands I),
                                    num_operands := Suc (num_operands I)\<rparr>) \<and>
              slots_at h' (Some (fresh h)) = slots_at h (operands I) @ [Some q] \<and>
              opers h' = opers h"
    by blast
next
  assume a: "num_operands I = alloc_operands I \<and> \<not> fst (next_alloc h)"
  from add_operand_fail [OF I ok conjunct1 [OF a] conjunct2 [OF a], of q]
  show "\<exists>h'. opdis_insn_add_operand (Some p) (Some q) h = Inr (False, h') \<and>
              insts h' = insts h \<and> arrays h' = arrays h \<and> opers h' = opers h"
    by blast
next
  assume "None \<notin> set ops"
  from add_operand_list_counts [OF I ok this]
  show "\<exists>k h' I'. add_operand_list (Some p) ops h = Inr (k, h') \<and> insts h' p = Some I' \<and>
              num_operands I' = num_operands I + k"
    by blast
qed

text \<open>
  On \<open>operand_example\<close>: the first call fills slot 0 in place; of four calls, the two
  first fill the array, the third fails to grow it, the fourth grows it to three slots.
\<close>

lemma add_operand_appends_example:
  "and_then (opdis_insn_add_operand (Some 0) (Some 2) operand_example) (\<lambda>(ok, h').
     Inr (ok, map_option (\<lambda>J. (num_operands J, alloc_operands J, slots_at h' (operands J)))
                (insn_at h' (Some 0))))
     = Inr (True, Some (1, 2, [Some 2, None])) \<and>
   and_then (add_operand_list (Some 0) [Some 2, Some 3, Some 4, Some 4] operand_example)
     (\<lambda>(k, h').
       Inr (k, map_option (\<lambda>J. (num_operands J, alloc_operands J, slots_at h' (operands J)))
                 (insn_at h' (Some 0))))
     = Inr (3, Some (3, 3, [Some 2, Some 3, Some 4]))"
proof -
  let ?I = "insn_zero\<lparr>operands := Some 1, alloc_operands := 2\<rparr>"
  have I: "insts operand_example 0 = Some ?I"
    by (simp add: operand_example_def model_defs)
  have ok: "operands_ok operand_example ?I"
    by (simp add: operand_example_def operands_ok_def model_defs)
  have lt: "num_operands ?I < alloc_operands ?I" by (simp add: insn_zero_def)
  have nn: "None \<notin> set [Some 2, Some 3, Some 4, Some (4::nat)]" by simp
  note t = add_operand_appends [OF I ok, of 2 "[Some 2, Some 3, Some 4, Some 4]"]
  from t lt obtain h' where
    "opdis_insn_add_operand (Some 0) (Some 2) operand_example = Inr (True, h')"
    "insts h' 0 = Some (?I\<lparr>num_operands := Suc (num_operands ?I)\<rparr>)"
    "slots_at h' (operands ?I) = (slots_at operand_example (operands ?I))[num_operands ?I := Some 2]"
    by blast
  moreover have "slots_at operand_example (Some 1) = [None, None]"
    by (simp add: operand_example_def model_defs replicate_numeral)
  ultimately have first: "and_then (opdis_insn_add_operand (Some 0) (Some 2) operand_example) (\<lambda>(ok, h').
     Inr (ok, map_option (\<lambda>J. (num_operands J, alloc_operands J, slots_at h' (operands J)))
                (insn_at h' (Some 0))))
     = Inr (True, Some (1, 2, [Some 2, None]))"
    by (simp add: and_then_def insn_at_def insn_zero_def)
  from t nn obtain k h'' I' where
    run: "add_operand_list (Some 0) [Some 2, Some 3, Some 4, Some 4] operand_example = Inr (k, h'')"
      "insts h'' 0 = Some I'" "num_operands I' = num_operands ?I + k"
    by blast
  have "and_then (add_operand_list (Some 0) [Some 2, Some 3, Some 4, Some 4] operand_example)
     (\<lambda>(k, h').
       Inr (k, map_option (\<lambda>J. (num_operands J, alloc_operands J, slots_at h' (operands J)))
                 (insn_at h' (Some 0))))
     = Inr (3, Some (3, 3, [Some 2, Some 3, Some 4]))"
    by (simp add: operand_example_def model_defs replicate_numeral)
  with first show ?thesis by simp
qed


text \<open>
  \<open>opdis_insn_alloc\<close> builds a well-formed operand array: \<open>alloc_operands\<close> is the
  number of slots, none of them in use.
\<close>

lemma insn_alloc_operands_ok:
  assumes "opdis_insn_alloc n h = (Some p, h')"
  shows "\<exists>I. insts h' p = Some I \<and> operands_ok h' I \<and> num_operands I = 0 \<and> alloc_operands I = n"
  using insn_alloc_Some [OF assms]
  by (auto simp: operands_ok_def insn_zero_def split: option.splits)

text \<open>
  C5. \<open>opdis_insn_add_operand\<close> on the instruction that
  \<open>opdis_insn_alloc_fixed 8 4 2 8\<close> returns, with three operands from
  \<open>opdis_op_alloc\<close>. The first two calls succeed and store into slots 0 and 1.
  The instruction then has \<open>num_operands = 2\<close> and \<open>alloc_operands = 4\<close> over an array
  of two slots, so the third call takes the branch for a free slot and stores into
  \<open>operands[2]\<close>, beyond the end of the array: it neither writes a free slot of the
  array nor grows it.
\<close>

theorem add_operand_fixed_overrun:
  "and_then (opdis_insn_alloc_fixed 8 4 2 8 (heap_init [])) (\<lambda>(p, h0).
     case opdis_op_alloc h0 of (q1, h1) \<Rightarrow>
     case opdis_op_alloc h1 of (q2, h2) \<Rightarrow>
     case opdis_op_alloc h2 of (q3, h3) \<Rightarrow>
     and_then (add_operand_list p [q1, q2] h3) (\<lambda>(k, h4).
       Inr (k, map_option (\<lambda>J. (num_operands J, alloc_operands J, length (slots_at h4 (operands J))))
                 (insn_at h4 p),
            opdis_insn_add_operand p q3 h4)))
   = Inr (2, Some (2, 4, 2), Inl Overrun)"
  by (simp add: model_defs replicate_numeral)

text \<open>
  The same on a duplicate: the source has two slots and one operand, its duplicate has
  one slot and the source's \<open>alloc_operands = 2\<close>, and the next call stores into
  \<open>operands[1]\<close> of the one-slot array.
\<close>

lemma add_operand_dupe_overrun:
  "(case opdis_insn_alloc 2 (heap_init []) of (p, h0) \<Rightarrow>
    case opdis_op_alloc h0 of (q1, h1) \<Rightarrow>
    case opdis_op_alloc h1 of (q2, h2) \<Rightarrow>
    and_then (opdis_insn_add_operand p q1 h2) (\<lambda>(ok, h3).
    and_then (opdis_insn_dupe p h3) (\<lambda>(d, h4).
      Inr (map_option (\<lambda>J. (num_operands J, alloc_operands J, length (slots_at h4 (operands J))))
                 (insn_at h4 d),
           opdis_insn_add_operand d q2 h4))))
   = Inr (Some (1, 2, 1), Inl Overrun)"
  by (simp add: model_defs replicate_numeral)


section \<open>Comments\<close>

lemma room_minus_1: "room cap len - 1 = room cap (Suc len)"
  by (simp add: room_def)

lemma room_minus_2: "room cap len - 2 = room cap (Suc (Suc len))"
  by (simp add: room_def)

lemma unat_sz_less: "unat (sz :: 8 word) < 2 ^ 32"
proof -
  have "unat sz < 2 ^ 8" using unsigned_less [of sz, where ?'a = nat] by simp
  then show ?thesis by simp
qed

lemma add_comment_fixed_appends:
  assumes I: "insts h p = Some I" and fx: "fixed_size I \<noteq> 0" and c: "comment I = Some c"
    and buf: "strs h c = Some buf" and d: "c_str buf = Some d"
    and fit: "length d + length (c_text s) + 2 \<le> unat (ascii_sz I)"
    and cap: "unat (ascii_sz I) \<le> length buf"
  shows "\<exists>h'. opdis_insn_add_comment (Some p) (Some s) h = Inr h' \<and>
           str_at h' (Some c) = Some (d @ '' '' @ c_text s) \<and>
           cap_at h' (Some c) = Some (length buf) \<and> insts h' = insts h"
proof -
  let ?t = "c_text s"
  let ?cap = "unat (ascii_sz I)"
  have n1: "unat (room ?cap (length d) - 1) = ?cap - Suc (length d)"
    using fit unat_sz_less [of "ascii_sz I"] by (simp add: room_minus_1 room_val)
  have n2: "unat (room ?cap (length d) - 2) = ?cap - Suc (Suc (length d))"
    using fit unat_sz_less [of "ascii_sz I"] by (simp add: room_minus_2 room_val)
  have rd: "read_str h (Some c) = Inr d" using buf d by (simp add: read_str_def)
  have p1: "length d + length '' '' + 1 \<le> length buf" using fit cap by simp
  have p2: "length '' '' \<le> ?cap - Suc (length d)" using fit by simp
  have p3: "NUL \<notin> set '' ''" by (simp add: NUL_def)
  obtain b1 where b1: "strncat_buf buf '' '' (?cap - Suc (length d)) = Inr b1"
      and l1: "length b1 = length buf" and c1: "c_str b1 = Some (d @ '' '')"
    using strncat_buf_fits [OF d p1 p2 p3] by blast
  have q1: "length (d @ '' '') + length ?t + 1 \<le> length b1" using fit cap l1 by simp
  have q2: "length ?t \<le> ?cap - Suc (Suc (length d))" using fit by simp
  obtain b2 where b2: "strncat_buf b1 ?t (?cap - Suc (Suc (length d))) = Inr b2"
      and l2: "length b2 = length b1" and c2: "c_str b2 = Some ((d @ '' '') @ ?t)"
    using strncat_buf_fits [OF c1 q1 q2 c_text_no_NUL] by blast
  let ?h' = "h\<lparr>strs := (strs h)(c \<mapsto> b2)\<rparr>"
  have run: "opdis_insn_add_comment (Some p) (Some s) h = Inr ?h'"
    using I fx c buf rd b1 b2
    by (simp add: opdis_insn_add_comment_def Let_def n1 n2 upd_str_def)
  have "str_at ?h' (Some c) = Some (d @ '' '' @ ?t)"
    using c2 by (simp add: str_at_def read_str_def)
  moreover have "cap_at ?h' (Some c) = Some (length buf)"
    using l1 l2 by (simp add: cap_at_def)
  ultimately show ?thesis using run by auto
qed

text \<open>
  C8. On a fixed-size instruction \<open>opdis_insn_add_comment\<close> separates with a blank,
  and puts one before the first comment as well: the comments \<open>a\<close> and \<open>b\<close> give
  the field \<open>" a b"\<close>, not \<open>"a;b"\<close>.
\<close>

theorem add_comment_fixed_separator:
  "and_then (opdis_insn_alloc_fixed 16 4 0 0 (heap_init [])) (\<lambda>(p, h).
   and_then (opdis_insn_add_comment p (Some ''a'') h) (\<lambda>h1.
   and_then (opdis_insn_add_comment p (Some ''b'') h1) (\<lambda>h2.
     Inr (map_option (\<lambda>I. (fixed_size I, str_at h2 (comment I))) (insn_at h2 p)))))
   = Inr (Some (1, Some '' a b''))"
  by (simp add: model_defs)

lemma add_comment_dynamic_separator:
  "(case opdis_insn_alloc 0 (heap_init []) of (p, h) \<Rightarrow>
   and_then (opdis_insn_add_comment p (Some ''a'') h) (\<lambda>h1.
   and_then (opdis_insn_add_comment p (Some ''b'') h1) (\<lambda>h2.
     Inr (map_option (\<lambda>I. (fixed_size I, str_at h2 (comment I))) (insn_at h2 p)))))
   = Inr (Some (0, Some ''a;b''))"
  by (simp add: model_defs)


section \<open>Clearing an instruction\<close>

lemma clear_str_frame:
  assumes "clear_str q h = Inr h'"
  shows "insts h' = insts h" and "opers h' = opers h" and "arrays h' = arrays h"
    and "fresh h' = fresh h" and "alloc_plan h' = alloc_plan h"
    and "Some a \<noteq> q \<Longrightarrow> strs h' a = strs h a"
  using assms
  by (auto simp: clear_str_def upd_str_def split: option.splits sum.splits)

lemma clear_result:
  assumes I: "insts h p = Some I"
    and clr: "opdis_insn_clear (Some p) h = Inr h'"
  shows "insts h' p = Some (I\<lparr>status := opdis_decode_invalid, num_prefixes := 0,
            num_operands := 0, target := None, dest := None, src := None\<rparr>)"
    and "Some a \<noteq> ascii I \<Longrightarrow> Some a \<noteq> prefixes I \<Longrightarrow> Some a \<noteq> mnemonic I \<Longrightarrow>
           strs h' a = strs h a"
proof -
  from clr I obtain h2 h4 h5 where
    s1: "clear_str (ascii I) (upd_insn p (\<lambda>J. J\<lparr>status := opdis_decode_invalid\<rparr>) h) = Inr h2"
    and s2: "clear_str (prefixes I) (upd_insn p (\<lambda>J. J\<lparr>num_prefixes := 0\<rparr>) h2) = Inr h4"
    and s3: "clear_str (mnemonic I) h4 = Inr h5"
    and h': "h' = upd_insn p (\<lambda>J. J\<lparr>num_operands := 0, target := None, dest := None, src := None\<rparr>) h5"
    by (auto simp: opdis_insn_clear_def Let_def split: sum.splits)
  show "insts h' p = Some (I\<lparr>status := opdis_decode_invalid, num_prefixes := 0,
            num_operands := 0, target := None, dest := None, src := None\<rparr>)"
    using I by (simp add: h' clear_str_frame(1) [OF s3] clear_str_frame(1) [OF s2]
        clear_str_frame(1) [OF s1])
  show "strs h' a = strs h a"
    if "Some a \<noteq> ascii I" "Some a \<noteq> prefixes I" "Some a \<noteq> mnemonic I"
    using that by (simp add: h' clear_str_frame(6) [OF s3] clear_str_frame(6) [OF s2]
        clear_str_frame(6) [OF s1])
qed

lemma truncate_buf_empty: "truncate_buf buf = Inr buf' \<Longrightarrow> c_str buf' = Some []"
  by (auto simp: truncate_buf_def c_str_def split: list.splits)

lemma clear_str_emptied:
  assumes "clear_str (Some a) h = Inr h'"
  shows "str_at h' (Some a) = Some []"
  using assms
  by (auto simp: clear_str_def upd_str_def str_at_def read_str_def truncate_buf_empty
      split: option.splits sum.splits)

lemma clear_str_keeps_emptied:
  assumes "clear_str q h = Inr h'" and "str_at h (Some a) = Some []"
  shows "str_at h' (Some a) = Some []"
proof (cases "q = Some a")
  case True
  then show ?thesis using assms(1) clear_str_emptied by blast
next
  case False
  then have "strs h' a = strs h a" using clear_str_frame(6) [OF assms(1), of a] by auto
  then show ?thesis using assms(2) by (simp add: str_at_def read_str_def)
qed

lemma clear_empties:
  assumes I: "insts h p = Some I"
    and clr: "opdis_insn_clear (Some p) h = Inr h'"
    and a: "Some a \<in> {ascii I, prefixes I, mnemonic I}"
  shows "str_at h' (Some a) = Some []"
proof -
  from clr I obtain h2 h4 h5 where
    s1: "clear_str (ascii I) (upd_insn p (\<lambda>J. J\<lparr>status := opdis_decode_invalid\<rparr>) h) = Inr h2"
    and s2: "clear_str (prefixes I) (upd_insn p (\<lambda>J. J\<lparr>num_prefixes := 0\<rparr>) h2) = Inr h4"
    and s3: "clear_str (mnemonic I) h4 = Inr h5"
    and h': "h' = upd_insn p (\<lambda>J. J\<lparr>num_operands := 0, target := None, dest := None, src := None\<rparr>) h5"
    by (auto simp: opdis_insn_clear_def Let_def split: sum.splits)
  have up: "str_at (upd_insn p f g) q = str_at g q" for f g q
    by (simp add: str_at_def read_str_def split: option.splits)
  from a consider "ascii I = Some a" | "prefixes I = Some a" | "mnemonic I = Some a" by auto
  then have "str_at h5 (Some a) = Some []"
  proof cases
    case 1
    then have "str_at h2 (Some a) = Some []" using s1 clear_str_emptied by simp
    then have "str_at h4 (Some a) = Some []" using clear_str_keeps_emptied [OF s2] up by simp
    then show ?thesis using clear_str_keeps_emptied [OF s3] by simp
  next
    case 2
    then have "str_at h4 (Some a) = Some []" using s2 clear_str_emptied by simp
    then show ?thesis using clear_str_keeps_emptied [OF s3] by simp
  next
    case 3
    then show ?thesis using s3 clear_str_emptied by simp
  qed
  then show ?thesis by (simp add: h' up)
qed

text \<open>
  C10. \<open>opdis_insn_clear\<close> leaves the comment alone. After a clear of an instruction
  whose comment buffer is none of its \<open>ascii\<close>, \<open>prefixes\<close> and \<open>mnemonic\<close>
  buffers: the \<open>comment\<close> pointer and the bytes of the comment buffer are as before;
  the status is \<open>opdis_decode_invalid\<close>, the two counts are zero, the three accessors
  are null, and the strings \<open>ascii\<close>, \<open>prefixes\<close> and \<open>mnemonic\<close> are empty. So a
  fixed-size instruction that held the comment \<open>d\<close> still holds it, and the next
  \<open>opdis_insn_add_comment\<close> appends to it: when the recorded capacity has room for
  the blank, the text and the terminator, the comment becomes \<open>d\<close>, a blank, the text.
\<close>

theorem clear_keeps_comment:
  assumes I: "insts h p = Some I" and c: "comment I = Some c"
    and sep: "Some c \<noteq> ascii I" "Some c \<noteq> prefixes I" "Some c \<noteq> mnemonic I"
    and clr: "opdis_insn_clear (Some p) h = Inr h1"
  shows "(\<exists>J. insts h1 p = Some J \<and> comment J = Some c \<and> fixed_size J = fixed_size I \<and>
              status J = opdis_decode_invalid \<and> num_prefixes J = 0 \<and> num_operands J = 0 \<and>
              target J = None \<and> dest J = None \<and> src J = None) \<and>
         strs h1 c = strs h c \<and>
         (\<forall>a. Some a \<in> {ascii I, prefixes I, mnemonic I} \<longrightarrow> str_at h1 (Some a) = Some []) \<and>
         (fixed_size I \<noteq> 0 \<longrightarrow> strs h c = Some buf \<longrightarrow> c_str buf = Some d \<longrightarrow>
          length d + length (c_text s) + 2 \<le> unat (ascii_sz I) \<longrightarrow>
          unat (ascii_sz I) \<le> length buf \<longrightarrow>
          (\<exists>h2. opdis_insn_add_comment (Some p) (Some s) h1 = Inr h2 \<and>
                str_at h2 (Some c) = Some (d @ '' '' @ c_text s)))"
proof -
  let ?J = "I\<lparr>status := opdis_decode_invalid, num_prefixes := 0,
            num_operands := 0, target := None, dest := None, src := None\<rparr>"
  have J: "insts h1 p = Some ?J" by (rule clear_result(1) [OF I clr])
  have same: "strs h1 c = strs h c" using clear_result(2) [OF I clr] sep by blast
  have empt: "\<forall>a. Some a \<in> {ascii I, prefixes I, mnemonic I} \<longrightarrow> str_at h1 (Some a) = Some []"
    using clear_empties [OF I clr] by blast
  have app: "\<exists>h2. opdis_insn_add_comment (Some p) (Some s) h1 = Inr h2 \<and>
                str_at h2 (Some c) = Some (d @ '' '' @ c_text s)"
    if "fixed_size I \<noteq> 0" "strs h c = Some buf" "c_str buf = Some d"
      "length d + length (c_text s) + 2 \<le> unat (ascii_sz I)" "unat (ascii_sz I) \<le> length buf"
  proof -
    have "\<exists>h'. opdis_insn_add_comment (Some p) (Some s) h1 = Inr h' \<and>
           str_at h' (Some c) = Some (d @ '' '' @ c_text s) \<and>
           cap_at h' (Some c) = Some (length buf) \<and> insts h' = insts h1"
      using that c same by (intro add_comment_fixed_appends [OF J]) simp_all
    then show ?thesis by blast
  qed
  show ?thesis using J c same empt app by simp
qed

text \<open>
  The instruction \<open>comment_example\<close> is cleared and given the comment \<open>new\<close>: the
  comment reads \<open>" old"\<close> before and after the clear, and \<open>" old new"\<close> in the end.
\<close>

theorem clear_keeps_comment_witness:
  "and_then (opdis_insn_clear (Some 0) comment_example) (\<lambda>h1.
   and_then (opdis_insn_add_comment (Some 0) (Some ''new'') h1) (\<lambda>h2.
     Inr (str_at comment_example (Some 4), str_at h1 (Some 4), str_at h1 (Some 1),
          str_at h2 (Some 4))))
   = Inr (Some '' old'', Some '' old'', Some [], Some '' old new'')"
proof -
  let ?I = "insn_zero\<lparr>ascii := Some 1, prefixes := Some 2, mnemonic := Some 3,
              comment := Some 4, fixed_size := 1, ascii_sz := 16, mnemonic_sz := 4\<rparr>"
  let ?buf = "'' old'' @ NUL # replicate 11 NUL"
  have I: "insts comment_example 0 = Some ?I"
    by (simp add: comment_example_def model_defs)
  have buf: "strs comment_example 4 = Some ?buf"
    by (simp add: comment_example_def model_defs)
  have d: "c_str ?buf = Some '' old''" by (simp add: c_str_def NUL_def)
  obtain h1 where clr: "opdis_insn_clear (Some 0) comment_example = Inr h1"
    by (simp add: comment_example_def model_defs replicate_numeral)
  have "(\<exists>J. insts h1 0 = Some J \<and> comment J = Some 4 \<and> fixed_size J = fixed_size ?I \<and>
              status J = opdis_decode_invalid \<and> num_prefixes J = 0 \<and> num_operands J = 0 \<and>
              target J = None \<and> dest J = None \<and> src J = None) \<and>
         strs h1 4 = strs comment_example 4 \<and>
         (\<forall>a. Some a \<in> {ascii ?I, prefixes ?I, mnemonic ?I} \<longrightarrow> str_at h1 (Some a) = Some []) \<and>
         (fixed_size ?I \<noteq> 0 \<longrightarrow> strs comment_example 4 = Some ?buf \<longrightarrow> c_str ?buf = Some '' old'' \<longrightarrow>
          length '' old'' + length (c_text ''new'') + 2 \<le> unat (ascii_sz ?I) \<longrightarrow>
          unat (ascii_sz ?I) \<le> length ?buf \<longrightarrow>
          (\<exists>h2. opdis_insn_add_comment (Some 0) (Some ''new'') h1 = Inr h2 \<and>
                str_at h2 (Some 4) = Some ('' old'' @ '' '' @ c_text ''new'')))"
    by (rule clear_keeps_comment [OF I _ _ _ _ clr]) simp_all
  then obtain h2 where same: "strs h1 4 = strs comment_example 4"
      and e1: "str_at h1 (Some 1) = Some []"
      and add: "opdis_insn_add_comment (Some 0) (Some ''new'') h1 = Inr h2"
      and res: "str_at h2 (Some 4) = Some ('' old'' @ '' '' @ c_text ''new'')"
    using buf d by (auto simp: c_text_def NUL_def)
  have "str_at h1 (Some 4) = Some '' old''"
    using same buf d by (simp add: str_at_def read_str_def)
  moreover have "str_at comment_example (Some 4) = Some '' old''"
    using buf d by (simp add: str_at_def read_str_def)
  ultimately show ?thesis using clr add res e1 by (simp add: and_then_def c_text_def NUL_def)
qed


section \<open>What \<open>opdis_insn_dupe\<close> copies\<close>

text \<open>
  Every field but \<open>ascii\<close>, \<open>mnemonic\<close>, \<open>prefixes\<close>, \<open>operands\<close> and
  \<open>num_operands\<close> reaches the duplicate as the \<open>memcpy\<close> left it: the scalar
  fields, and with them \<open>fixed_size\<close>, the two capacities, \<open>alloc_operands\<close>,
  \<open>comment\<close>, \<open>bytes\<close> and the three accessors. The count of operands is the
  smaller of the source's \<open>num_operands\<close> and \<open>alloc_operands\<close>.
\<close>

lemma strdup_ptr_frame:
  assumes "strdup_ptr q h = Inr (r, h')"
  shows "insts h' = insts h" "arrays h' = arrays h" "opers h' = opers h"
  using assms next_alloc_frame [of h]
  by (auto simp: strdup_ptr_def strdup_def new_str_def split: sum.splits prod.splits bool.splits)

lemma op_dupe_frame:
  assumes "opdis_op_dupe q h = Inr (r, h')"
  shows "insts h' = insts h" "arrays h' = arrays h"
proof -
  show "insts h' = insts h"
  proof (cases "calloc_op h")
    case (Pair d h1)
    have i1: "insts h1 = insts h"
      using Pair next_alloc_frame [of h] by (auto simp: calloc_op_def split: prod.splits bool.splits)
    show ?thesis using assms Pair i1 strdup_ptr_frame(1)
      by (auto simp: opdis_op_dupe_def opdis_op_alloc_def Let_def
          split: option.splits sum.splits prod.splits)
  qed
  show "arrays h' = arrays h"
  proof (cases "calloc_op h")
    case (Pair d h1)
    have i1: "arrays h1 = arrays h"
      using Pair next_alloc_frame [of h] by (auto simp: calloc_op_def split: prod.splits bool.splits)
    show ?thesis using assms Pair i1 strdup_ptr_frame(2)
      by (auto simp: opdis_op_dupe_def opdis_op_alloc_def Let_def
          split: option.splits sum.splits prod.splits)
  qed
qed


lemma dupe_fail_False: "dupe_fail p h \<noteq> Inr (True, h')"
  by (auto simp: dupe_fail_def split: sum.splits)

lemma dupe_ascii_True:
  assumes "dupe_ascii I p h = Inr (True, h')" and "insts h p = Some J"
  shows "\<exists>J'. insts h' p = Some J' \<and> unowned J' = unowned J \<and> operands J' = operands J \<and>
           num_operands J' = num_operands J \<and> num_prefixes J' = num_prefixes J \<and>
           arrays h' = arrays h"
proof (cases "ascii I")
  case None
  then show ?thesis using assms by (simp add: dupe_ascii_def)
next
  case (Some a)
  from assms(1) Some obtain b h1 where s: "strdup_ptr (Some a) h = Inr (b, h1)"
    and h': "h' = upd_insn p (\<lambda>J. J\<lparr>ascii := b\<rparr>) h1"
    using dupe_fail_False
    by (auto simp: dupe_ascii_def Let_def split: sum.splits prod.splits if_splits)
  show ?thesis using assms(2) strdup_ptr_frame [OF s] by (simp add: h' unowned_def)
qed

lemma dupe_mnemonic_True:
  assumes "dupe_mnemonic I p h = Inr (True, h')" and "insts h p = Some J"
  shows "\<exists>J'. insts h' p = Some J' \<and> unowned J' = unowned J \<and> operands J' = operands J \<and>
           num_operands J' = num_operands J \<and> num_prefixes J' = num_prefixes J \<and>
           arrays h' = arrays h"
proof (cases "mnemonic I")
  case None
  then show ?thesis using assms by (simp add: dupe_mnemonic_def)
next
  case (Some a)
  from assms(1) Some obtain b h1 where s: "strdup_ptr (Some a) h = Inr (b, h1)"
    and h': "h' = upd_insn p (\<lambda>J. J\<lparr>mnemonic := b\<rparr>) h1"
    using dupe_fail_False
    by (auto simp: dupe_mnemonic_def Let_def split: sum.splits prod.splits if_splits)
  show ?thesis using assms(2) strdup_ptr_frame [OF s] by (simp add: h' unowned_def)
qed

lemma dupe_prefixes_True:
  assumes "dupe_prefixes I p h = Inr (True, h')" and "insts h p = Some J"
    and "num_prefixes J = num_prefixes I"
  shows "\<exists>J'. insts h' p = Some J' \<and> unowned J' = unowned J \<and> operands J' = operands J \<and>
           num_operands J' = num_operands J \<and> num_prefixes J' = num_prefixes J \<and>
           arrays h' = arrays h"
proof (cases "prefixes I")
  case None
  then show ?thesis using assms by (simp add: dupe_prefixes_def)
next
  case (Some a)
  from assms(1) Some obtain b h1 where s: "strdup_ptr (Some a) h = Inr (b, h1)"
    and h': "h' = upd_insn p (\<lambda>J. J\<lparr>num_prefixes := num_prefixes I\<rparr>)
                    (upd_insn p (\<lambda>J. J\<lparr>prefixes := b\<rparr>) h1)"
    using dupe_fail_False
    by (auto simp: dupe_prefixes_def Let_def split: sum.splits prod.splits if_splits)
  show ?thesis using assms(2,3) strdup_ptr_frame [OF s] by (simp add: h' unowned_def)
qed

lemma dupe_operands_True:
  assumes "dupe_operands I p i h = Inr (True, h')" and "insts h p = Some J"
    and "num_operands J = i"
  shows "\<exists>J'. insts h' p = Some J' \<and> unowned J' = unowned J \<and> operands J' = operands J \<and>
           num_prefixes J' = num_prefixes J \<and>
           num_operands J' = max i (min (num_operands I) (alloc_operands J))"
  using assms
proof (induction I p i h arbitrary: J rule: dupe_operands.induct)
  case (1 I p i h)
  show ?case
  proof (cases "i < num_operands I \<and> i < alloc_operands J")
    case False
    then have "h' = h" using "1.prems"(1,2)
      by (auto simp: dupe_operands.simps [of I p i h] split: if_splits)
    then show ?thesis using False "1.prems"(2,3) by (auto simp: max_def min_def)
  next
    case True
    from "1.prems"(1,2) True obtain q where q: "read_slot h (operands I) i = Inr q"
      by (auto simp: dupe_operands.simps [of I p i h] split: sum.splits)
    from "1.prems"(1,2) True q obtain d h1 where d: "opdis_op_dupe q h = Inr (Some d, h1)"
      using dupe_fail_False
      by (auto simp: dupe_operands.simps [of I p i h] split: sum.splits prod.splits option.splits)
    note f = op_dupe_frame [OF d]
    from "1.prems"(1,2) True q d obtain h2 where
      w: "write_slot (operands J) i (Some d) h1 = Inr h2"
      by (auto simp: dupe_operands.simps [of I p i h] Let_def split: sum.splits)
    have i2: "insts h2 = insts h"
      using w f(1) by (auto simp: write_slot_def split: option.splits if_splits)
    let ?h3 = "upd_insn p (\<lambda>J. J\<lparr>num_operands := Suc (num_operands J)\<rparr>) h2"
    from "1.prems"(1,2) True q d w have
      no: "\<not> (2::nat) ^ 31 \<le> Suc i" and rec: "dupe_operands I p (Suc i) ?h3 = Inr (True, h')"
      by (auto simp: dupe_operands.simps [of I p i h] Let_def split: if_splits)
    let ?J3 = "J\<lparr>num_operands := Suc (num_operands J)\<rparr>"
    have J3: "insts ?h3 p = Some ?J3" using "1.prems"(2) i2 by simp
    have n3: "num_operands ?J3 = Suc i" using "1.prems"(3) by simp
    have "\<exists>J'. insts h' p = Some J' \<and> unowned J' = unowned ?J3 \<and> operands J' = operands ?J3 \<and>
           num_prefixes J' = num_prefixes ?J3 \<and>
           num_operands J' = max (Suc i) (min (num_operands I) (alloc_operands ?J3))"
      by (rule "1.IH" [OF "1.prems"(2) True q d refl refl w refl no rec J3 n3])
    then show ?thesis using True by (auto simp: unowned_def max_def min_def)
  qed
qed


lemma dupe_copies_struct:
  assumes run: "opdis_insn_dupe (Some s) h = Inr (Some q, h')" and I: "insts h s = Some I"
  shows "\<exists>J. insts h' q = Some J \<and> unowned J = unowned I \<and>
           num_operands J = min (num_operands I) (alloc_operands I)"
proof -
  from run I obtain h1 where A: "opdis_insn_alloc (num_operands I) h = (Some q, h1)"
    by (auto simp: opdis_insn_dupe_def Let_def
        split: prod.splits option.splits sum.splits bool.splits)
  from insn_alloc_Some [OF A] obtain N where N: "insts h1 q = Some N" by simp
  let ?J2 = "I\<lparr>ascii := None, mnemonic := None, prefixes := None, operands := operands N\<rparr>"
  let ?h2 = "h1\<lparr>insts := (insts h1)(q \<mapsto> ?J2)\<rparr>"
  from run I A N obtain h3 h4 h5 where
    s3: "dupe_ascii I q ?h2 = Inr (True, h3)"
    and s4: "dupe_prefixes I q h3 = Inr (True, h4)"
    and s5: "dupe_mnemonic I q h4 = Inr (True, h5)"
    and s7: "dupe_operands I q 0 (upd_insn q (\<lambda>J. J\<lparr>num_operands := 0\<rparr>) h5) = Inr (True, h')"
    by (auto simp: opdis_insn_dupe_def Let_def split: prod.splits sum.splits bool.splits)
  have J2: "insts ?h2 q = Some ?J2" by simp
  from dupe_ascii_True [OF s3 J2] obtain J3 where
    J3: "insts h3 q = Some J3" "unowned J3 = unowned ?J2" "num_prefixes J3 = num_prefixes ?J2"
    by blast
  have np3: "num_prefixes J3 = num_prefixes I" using J3(3) by simp
  from dupe_prefixes_True [OF s4 J3(1) np3] obtain J4 where
    J4: "insts h4 q = Some J4" "unowned J4 = unowned J3"
    by blast
  from dupe_mnemonic_True [OF s5 J4(1)] obtain J5 where
    J5: "insts h5 q = Some J5" "unowned J5 = unowned J4"
    by blast
  let ?J6 = "J5\<lparr>num_operands := 0\<rparr>"
  have J6: "insts (upd_insn q (\<lambda>J. J\<lparr>num_operands := 0\<rparr>) h5) q = Some ?J6"
    using J5(1) by simp
  have n6: "num_operands ?J6 = 0" by simp
  from dupe_operands_True [OF s7 J6 n6] obtain J where
    J: "insts h' q = Some J" "unowned J = unowned ?J6"
      "num_operands J = max 0 (min (num_operands I) (alloc_operands ?J6))"
    by blast
  have u6: "unowned ?J6 = unowned J5" by (simp add: unowned_def)
  have u2: "unowned ?J2 = unowned I" by (simp add: unowned_def)
  have u: "unowned J = unowned I" using J(2) u6 J5(2) J4(2) J3(2) u2 by simp
  have "alloc_operands (unowned ?J6) = alloc_operands (unowned I)"
    using u6 J5(2) J4(2) J3(2) u2 by simp
  then have "alloc_operands ?J6 = alloc_operands I" by (simp add: unowned_def)
  then show ?thesis using J(1,3) u by simp
qed

lemma unowned_fields:
  assumes "unowned J = unowned I"
  shows "fixed_size J = fixed_size I" "ascii_sz J = ascii_sz I" "mnemonic_sz J = mnemonic_sz I"
    "target J = target I" "dest J = dest I" "src J = src I" "comment J = comment I"
    "bytes J = bytes I" "alloc_operands J = alloc_operands I" "num_prefixes J = num_prefixes I"
    "status J = status I" "offset J = offset I" "vma J = vma I" "insn_size J = insn_size I"
    "category J = category I" "isa J = isa I" "flags_cflow J = flags_cflow I"
proof -
  have "fixed_size (unowned J) = fixed_size (unowned I)" "ascii_sz (unowned J) = ascii_sz (unowned I)"
    "mnemonic_sz (unowned J) = mnemonic_sz (unowned I)"
    "target (unowned J) = target (unowned I)" "dest (unowned J) = dest (unowned I)"
    "src (unowned J) = src (unowned I)" "comment (unowned J) = comment (unowned I)"
    "bytes (unowned J) = bytes (unowned I)" "alloc_operands (unowned J) = alloc_operands (unowned I)"
    "num_prefixes (unowned J) = num_prefixes (unowned I)"
    "status (unowned J) = status (unowned I)" "offset (unowned J) = offset (unowned I)"
    "vma (unowned J) = vma (unowned I)" "insn_size (unowned J) = insn_size (unowned I)"
    "category (unowned J) = category (unowned I)" "isa (unowned J) = isa (unowned I)"
    "flags_cflow (unowned J) = flags_cflow (unowned I)"
    using assms by simp_all
  then show "fixed_size J = fixed_size I" "ascii_sz J = ascii_sz I" "mnemonic_sz J = mnemonic_sz I"
    "target J = target I" "dest J = dest I" "src J = src I" "comment J = comment I"
    "bytes J = bytes I" "alloc_operands J = alloc_operands I" "num_prefixes J = num_prefixes I"
    "status J = status I" "offset J = offset I" "vma J = vma I" "insn_size J = insn_size I"
    "category J = category I" "isa J = isa I" "flags_cflow J = flags_cflow I"
    by (simp_all add: unowned_def)
qed

lemma dupe_keeps_mode_and_accessors:
  assumes "opdis_insn_dupe (Some s) h = Inr (Some q, h')" and "insts h s = Some I"
  shows "\<exists>J. insts h' q = Some J \<and> fixed_size J = fixed_size I \<and> ascii_sz J = ascii_sz I \<and>
           mnemonic_sz J = mnemonic_sz I \<and> target J = target I \<and> dest J = dest I \<and>
           src J = src I \<and> comment J = comment I \<and> num_prefixes J = num_prefixes I \<and>
           num_operands J = min (num_operands I) (alloc_operands J)"
proof -
  from dupe_copies_struct [OF assms] obtain J where
    J: "insts h' q = Some J" "unowned J = unowned I"
      "num_operands J = min (num_operands I) (alloc_operands I)"
    by blast
  note f = unowned_fields [OF J(2)]
  show ?thesis using J(1,3) f by simp
qed

text \<open>
  C1. The duplicate of a fixed-size instruction is not dynamic. \<open>opdis_insn_dupe\<close> copies
  the whole struct and resets four pointers; \<open>fixed_size\<close> and the two capacities stay
  as copied. For a fixed-size instruction of capacity 8 the duplicate (a new object) has
  \<open>fixed_size = 1\<close> and \<open>ascii_sz = 8\<close>, while its \<open>ascii\<close> buffer, made by
  \<open>strdup\<close> of the empty string, holds one byte.
\<close>

theorem dupe_of_fixed_stays_fixed:
  "and_then (opdis_insn_alloc_fixed 8 4 1 8 (heap_init [])) (\<lambda>(p, h).
   and_then (opdis_insn_dupe p h) (\<lambda>(q, h').
     Inr (q \<noteq> p,
          map_option (\<lambda>I. (fixed_size I, ascii_sz I, cap_at h' (ascii I))) (insn_at h' q))))
   = Inr (True, Some (1, 8, Some 1))"
  by (simp add: model_defs)

text \<open>
  C6. The accessors of a duplicate point into the source. An instruction with one
  operand that is also its \<open>target\<close> satisfies the invariant; its duplicate has the
  same \<open>target\<close> pointer, which is the operand of the source and not the copy of it
  in the duplicate's own operand array.
\<close>

theorem dupe_accessors_point_into_source:
  "(case opdis_insn_alloc 1 (heap_init []) of (p, h0) \<Rightarrow>
    case opdis_op_alloc h0 of (op, h1) \<Rightarrow>
    and_then (opdis_insn_add_operand p op h1) (\<lambda>(ok, h2).
    and_then (Inr (upd_insn (the p) (\<lambda>I. I\<lparr>target := op\<rparr>) h2)) (\<lambda>h3.
    and_then (opdis_insn_dupe p h3) (\<lambda>(q, h4).
      Inr (ok, accessors_ok h3 p, accessors_ok h4 q,
           map_option target (insn_at h4 q) = Some op,
           map_option (\<lambda>I. slots_at h3 (operands I)) (insn_at h3 p) = Some [op],
           map_option (\<lambda>I. slots_at h4 (operands I)) (insn_at h4 q) = Some [op])))))
   = Inr (True, True, False, True, True, False)"
  by (simp add: model_defs accessors_ok_def)

end
